theory Spec2Isabelle
  imports Main "HOL-Library.Char_ord"
begin

section \<open>Levels and level parsing (level.go)\<close>

text \<open>
  \<^verbatim>\<open>type Level = slog.Level\<close>: an integer severity. The four named levels are
  those of \<^verbatim>\<open>log/slog\<close>; any other integer is a legal level too.
\<close>

type_synonym Level = int

definition LevelDebug :: Level where "LevelDebug = -4"
definition LevelInfo :: Level where "LevelInfo = 0"
definition LevelWarn :: Level where "LevelWarn = 4"
definition LevelError :: Level where "LevelError = 8"

text \<open>
  Go strings are byte strings. \<^verbatim>\<open>strings.ToLower\<close> and \<^verbatim>\<open>strings.TrimSpace\<close>
  work byte by byte as long as the input is ASCII and consult the Unicode tables of the Go
  library otherwise. Those tables are not part of the repository: the record
  \<open>unicode\<close> stands for what the library computes on input that is not ASCII.
\<close>

record unicode =
  mapToLower :: "string \<Rightarrow> string"
  trimSpaceFunc :: "string \<Rightarrow> string"

definition isASCII :: "char \<Rightarrow> bool" where
  "isASCII c = ((of_char c :: nat) < 128)"

definition asciiSpace :: "char \<Rightarrow> bool" where
  "asciiSpace c =
     (c = CHR 0x09 \<or> c = CHR 0x0A \<or> c = CHR 0x0B \<or> c = CHR 0x0C \<or> c = CHR 0x0D \<or> c = CHR '' '')"

definition toLowerASCII :: "char \<Rightarrow> char" where
  "toLowerASCII c =
     (if CHR ''A'' \<le> c \<and> c \<le> CHR ''Z'' then char_of ((of_char c :: nat) + 32) else c)"

definition strings_ToLower :: "unicode \<Rightarrow> string \<Rightarrow> string" where
  "strings_ToLower U s = (if list_all isASCII s then map toLowerASCII s else mapToLower U s)"

definition strings_TrimSpace :: "unicode \<Rightarrow> string \<Rightarrow> string" where
  "strings_TrimSpace U s =
     (if list_all isASCII s then rev (dropWhile asciiSpace (rev (dropWhile asciiSpace s)))
      else trimSpaceFunc U s)"

text \<open>\<^verbatim>\<open>strings.Contains\<close>: \<open>sub\<close> occurs in \<open>s\<close> at some offset.\<close>

definition strings_Contains :: "string \<Rightarrow> string \<Rightarrow> bool" where
  "strings_Contains s sub =
     list_ex (\<lambda>i. take (length sub) (drop i s) = sub) [0 ..< Suc (length s)]"

definition ParseLevel :: "unicode \<Rightarrow> string \<Rightarrow> Level" where
  "ParseLevel U s =
     (let t = strings_ToLower U (strings_TrimSpace U s) in
      if t = ''debug'' then LevelDebug
      else if t = ''info'' then LevelInfo
      else if t = ''warn'' \<or> t = ''warning'' then LevelWarn
      else if t = ''error'' then LevelError
      else LevelInfo)"

section \<open>Environment and configuration (env.go, options.go)\<close>

text \<open>\<^verbatim>\<open>type Env string\<close>: any string is an \<open>Env\<close>; three are named.\<close>

type_synonym Env = string

definition EnvProduction :: Env where "EnvProduction = ''production''"
definition EnvStaging :: Env where "EnvStaging = ''staging''"
definition EnvDevelopment :: Env where "EnvDevelopment = ''development''"

definition detectEnv :: "unicode \<Rightarrow> (string \<Rightarrow> string) \<Rightarrow> Env" where
  "detectEnv U getenv =
     (let val = strings_ToLower U (strings_TrimSpace U (getenv ''XLOG_ENV'')) in
      if val = ''production'' \<or> val = ''prod'' then EnvProduction
      else if val = ''staging'' \<or> val = ''stage'' then EnvStaging
      else if val = ''development'' \<or> val = ''dev'' then EnvDevelopment
      else EnvDevelopment)"

definition defaultLevelForEnv :: "Env \<Rightarrow> Level" where
  "defaultLevelForEnv e =
     (if e = EnvProduction then LevelInfo
      else if e = EnvStaging \<or> e = EnvDevelopment then LevelDebug
      else LevelDebug)"

definition detectLevel :: "unicode \<Rightarrow> (string \<Rightarrow> string) \<Rightarrow> Env \<Rightarrow> Level" where
  "detectLevel U getenv e =
     (let val = getenv ''XLOG_LEVEL'' in
      if val \<noteq> [] then ParseLevel U val else defaultLevelForEnv e)"

text \<open>
  The output sink is an \<^verbatim>\<open>io.Writer\<close>. The configuration only compares it with the
  two standard streams, so a writer is identified as one of them or as some other writer.
\<close>

datatype Writer = Stdout | Stderr | OtherWriter nat

type_synonym ContextKey = string

record config =
  env :: Env
  level :: Level
  cfg_output :: Writer
  contextKeys :: "ContextKey list"
  addSource :: bool
  useColor :: "bool option"

definition defaultConfig :: "unicode \<Rightarrow> (string \<Rightarrow> string) \<Rightarrow> config" where
  "defaultConfig U getenv =
     (let e = detectEnv U getenv in
      \<lparr>env = e, level = detectLevel U getenv e, cfg_output = Stderr, contextKeys = [],
       addSource = False, useColor = None\<rparr>)"

definition WithEnv :: "Env \<Rightarrow> config \<Rightarrow> config" where
  "WithEnv e c = c\<lparr>env := e\<rparr>"

definition WithLevel :: "Level \<Rightarrow> config \<Rightarrow> config" where
  "WithLevel l c = c\<lparr>level := l\<rparr>"

definition WithOutput :: "Writer \<Rightarrow> config \<Rightarrow> config" where
  "WithOutput w c = c\<lparr>cfg_output := w\<rparr>"

definition WithContextKeys :: "ContextKey list \<Rightarrow> config \<Rightarrow> config" where
  "WithContextKeys keys c = c\<lparr>contextKeys := keys\<rparr>"

definition WithSource :: "bool \<Rightarrow> config \<Rightarrow> config" where
  "WithSource enabled c = c\<lparr>addSource := enabled\<rparr>"

definition WithColor :: "bool \<Rightarrow> config \<Rightarrow> config" where
  "WithColor enabled c = c\<lparr>useColor := Some enabled\<rparr>"

text \<open>
  The terminal probes \<^verbatim>\<open>isStdoutTerminal()\<close> and \<^verbatim>\<open>isStderrTerminal()\<close> ask the
  operating system; their answers are inputs of the model.
\<close>

record terminal =
  isStdoutTerminal :: bool
  isStderrTerminal :: bool

definition shouldUseColor :: "terminal \<Rightarrow> config \<Rightarrow> bool" where
  "shouldUseColor T c =
     (case useColor c of
        Some b \<Rightarrow> b
      | None \<Rightarrow>
          if env c = EnvProduction then False
          else if cfg_output c = Stdout then isStdoutTerminal T
          else if cfg_output c = Stderr then isStderrTerminal T
          else False)"

definition shouldUseJSON :: "config \<Rightarrow> bool" where
  "shouldUseJSON c = (env c = EnvProduction)"

section \<open>Records, attributes and the ambient store (log/slog, context)\<close>

text \<open>
  The types of this section belong to the Go standard library (\<^verbatim>\<open>log/slog\<close>,
  \<^verbatim>\<open>context\<close>, \<^verbatim>\<open>slices\<close>); the repository uses them, and the model follows what the
  library does with them.

  An attribute is a key with a value; a value may be a group of attributes, to any depth.
  The value kinds modelled are strings, booleans, groups and the zero \<^verbatim>\<open>Value{}\<close>
  (kind Any holding nil); \<^verbatim>\<open>slog.Attr{}\<close> is the empty key with the zero value.
\<close>

datatype Val = StringValue string | BoolValue bool | GroupValue "Attr list" | NilValue
and Attr = Attr (Key: string) (Value: Val)

definition slog_String :: "string \<Rightarrow> string \<Rightarrow> Attr" where
  "slog_String k s = Attr k (StringValue s)"

definition zeroAttr :: Attr where
  "zeroAttr = Attr [] NilValue"

fun isEmptyGroup :: "Val \<Rightarrow> bool" where
  "isEmptyGroup (GroupValue as) = (as = [])"
| "isEmptyGroup _ = False"

text \<open>
  Go slices are views of shared backing arrays. A slice is a header (array, length,
  capacity); the heap holds the backing arrays, each a list as long as its capacity, and
  the mutexes, which only have an identity. \<open>lim\<close> is the next fresh address.
\<close>

record slice =
  sl_ptr :: nat
  sl_len :: nat
  sl_cap :: nat

record heap =
  attrArrays :: "nat \<Rightarrow> Attr list"
  stringArrays :: "nat \<Rightarrow> string list"
  lim :: nat

definition nilSlice :: slice where
  "nilSlice = \<lparr>sl_ptr = 0, sl_len = 0, sl_cap = 0\<rparr>"

definition readAttrs :: "heap \<Rightarrow> slice \<Rightarrow> Attr list" where
  "readAttrs hp s = take (sl_len s) (attrArrays hp (sl_ptr s))"

definition readStrings :: "heap \<Rightarrow> slice \<Rightarrow> string list" where
  "readStrings hp s = take (sl_len s) (stringArrays hp (sl_ptr s))"

text \<open>\<^verbatim>\<open>make\<close> followed by \<^verbatim>\<open>copy\<close>: a fresh array holding \<open>xs\<close>.\<close>

definition makeAttrs :: "Attr list \<Rightarrow> heap \<Rightarrow> slice \<times> heap" where
  "makeAttrs xs hp =
     (\<lparr>sl_ptr = lim hp, sl_len = length xs, sl_cap = length xs\<rparr>,
      hp\<lparr>attrArrays := (attrArrays hp)(lim hp := xs), lim := Suc (lim hp)\<rparr>)"

definition makeStrings :: "string list \<Rightarrow> heap \<Rightarrow> slice \<times> heap" where
  "makeStrings xs hp =
     (\<lparr>sl_ptr = lim hp, sl_len = length xs, sl_cap = length xs\<rparr>,
      hp\<lparr>stringArrays := (stringArrays hp)(lim hp := xs), lim := Suc (lim hp)\<rparr>)"

text \<open>\<^verbatim>\<open>slices.Clip\<close>: the same view with no spare capacity.\<close>

definition Clip :: "slice \<Rightarrow> slice" where
  "Clip s = s\<lparr>sl_cap := sl_len s\<rparr>"

text \<open>
  \<^verbatim>\<open>append(s, a)\<close>: in place when there is spare capacity, otherwise into a fresh,
  larger array. The capacity of the fresh array is the Go runtime's choice; the model
  takes the least one.
\<close>

definition appendAttr :: "slice \<Rightarrow> Attr \<Rightarrow> heap \<Rightarrow> slice \<times> heap" where
  "appendAttr s a hp =
     (if sl_len s < sl_cap s
      then (s\<lparr>sl_len := Suc (sl_len s)\<rparr>,
            hp\<lparr>attrArrays := (attrArrays hp)(sl_ptr s := (attrArrays hp (sl_ptr s))[sl_len s := a])\<rparr>)
      else makeAttrs (readAttrs hp s @ [a]) hp)"

text \<open>
  \<^verbatim>\<open>slices.Grow(s, n)\<close>: room for \<open>n\<close> more elements. When the spare capacity is too
  small, the whole array moves to a fresh one that is longer by what is missing; the
  length of the slice stays.
\<close>

definition Grow :: "slice \<Rightarrow> nat \<Rightarrow> heap \<Rightarrow> slice \<times> heap" where
  "Grow s n hp =
     (if sl_cap s - sl_len s < n
      then (let extra = n - (sl_cap s - sl_len s) in
            (\<lparr>sl_ptr = lim hp, sl_len = sl_len s, sl_cap = sl_cap s + extra\<rparr>,
             hp\<lparr>attrArrays := (attrArrays hp)
                    (lim hp := take (sl_cap s) (attrArrays hp (sl_ptr s)) @ replicate extra zeroAttr),
                lim := Suc (lim hp)\<rparr>))
      else (s, hp))"

text \<open>
  A \<^verbatim>\<open>slog.Record\<close>: time of day, message, level, and the attributes, of which the first
  five are stored inline (\<open>r_front\<close>, copied with the record) and the rest in the slice
  \<open>r_back\<close>, whose backing array is shared between copies of the record.
\<close>

record time =
  hour :: nat
  minute :: nat
  second :: nat

record Record =
  r_Time :: time
  r_Message :: string
  r_Level :: Level
  r_front :: "Attr list"
  r_back :: slice

definition nAttrsInline :: nat where
  "nAttrsInline = 5"

definition Record_Attrs :: "heap \<Rightarrow> Record \<Rightarrow> Attr list" where
  "Record_Attrs hp r = r_front r @ readAttrs hp (r_back r)"

definition Record_Clone :: "Record \<Rightarrow> Record" where
  "Record_Clone r = r\<lparr>r_back := Clip (r_back r)\<rparr>"

text \<open>
  \<^verbatim>\<open>Record.AddAttrs\<close>: fill the inline array first, then append to the slice. Empty
  groups are omitted. When the slice has spare capacity whose first cell is in use, the
  library clips the slice and appends a marker attribute before going on.
\<close>

fun fillFront :: "Attr list \<Rightarrow> Attr list \<Rightarrow> Attr list \<times> Attr list" where
  "fillFront front [] = (front, [])"
| "fillFront front (a # as) =
     (if length front < nAttrsInline
      then (if isEmptyGroup (Value a) then fillFront front as else fillFront (front @ [a]) as)
      else (front, a # as))"

fun appendAll :: "slice \<Rightarrow> Attr list \<Rightarrow> heap \<Rightarrow> slice \<times> heap" where
  "appendAll s [] hp = (s, hp)"
| "appendAll s (a # as) hp =
     (if isEmptyGroup (Value a) then appendAll s as hp
      else (case appendAttr s a hp of (s', hp') \<Rightarrow> appendAll s' as hp'))"

definition bugAttr :: Attr where
  "bugAttr = slog_String ''!BUG''
     ''AddAttrs unsafely called on copy of Record made without using Record.Clone''"

definition Record_AddAttrs :: "Record \<Rightarrow> Attr list \<Rightarrow> heap \<Rightarrow> Record \<times> heap" where
  "Record_AddAttrs r attrs hp =
     (case fillFront (r_front r) attrs of (front, rest) \<Rightarrow>
      (case (if sl_len (r_back r) < sl_cap (r_back r)
                \<and> attrArrays hp (sl_ptr (r_back r)) ! sl_len (r_back r) \<noteq> zeroAttr
             then appendAttr (Clip (r_back r)) bugAttr hp
             else (r_back r, hp)) of (b1, hp1) \<Rightarrow>
      (case Grow b1 (length (filter (\<lambda>a. \<not> isEmptyGroup (Value a)) rest)) hp1 of (b2, hp2) \<Rightarrow>
      (case appendAll b2 rest hp2 of (b3, hp3) \<Rightarrow>
         (r\<lparr>r_front := front, r_back := b3\<rparr>, hp3)))))"

text \<open>
  The ambient store is a \<^verbatim>\<open>context.Context\<close>: \<^verbatim>\<open>ctx.Value(key)\<close> yields a value of any
  type, nil when the key is absent. The context itself may be nil.
\<close>

datatype anyval = AnyString string | AnyInt int | AnyBool bool | AnyNil

type_synonym Context = "ContextKey \<Rightarrow> anyval"

definition Background :: Context where
  "Background = (\<lambda>k. AnyNil)"

text \<open>The keys and helpers of context.go.\<close>

definition KeyRequestID :: ContextKey where "KeyRequestID = ''request_id''"
definition KeyTraceID :: ContextKey where "KeyTraceID = ''trace_id''"
definition KeySpanID :: ContextKey where "KeySpanID = ''span_id''"
definition KeyUserID :: ContextKey where "KeyUserID = ''user_id''"

definition WithRequestID :: "Context \<Rightarrow> string \<Rightarrow> Context" where
  "WithRequestID ctx requestID = ctx(KeyRequestID := AnyString requestID)"

definition WithTraceID :: "Context \<Rightarrow> string \<Rightarrow> Context" where
  "WithTraceID ctx traceID = ctx(KeyTraceID := AnyString traceID)"

definition WithSpanID :: "Context \<Rightarrow> string \<Rightarrow> Context" where
  "WithSpanID ctx spanID = ctx(KeySpanID := AnyString spanID)"

definition WithUserID :: "Context \<Rightarrow> string \<Rightarrow> Context" where
  "WithUserID ctx userID = ctx(KeyUserID := AnyString userID)"

section \<open>The writer behind a renderer\<close>

text \<open>
  Each \<^verbatim>\<open>fmt.Fprintf(h.w, ...)\<close> formats its text and hands it to the writer in one
  \<^verbatim>\<open>Write\<close> call, which may fail. A sink records the texts it accepted and the number of
  calls made; \<open>failing s n\<close> says whether call number \<open>n\<close> fails.
\<close>

datatype error = WriteError

record sink =
  written :: "string list"
  attempts :: nat
  failing :: "nat \<Rightarrow> bool"

definition Write :: "string \<Rightarrow> sink \<Rightarrow> error option \<times> sink" where
  "Write p s =
     (if failing s (attempts s)
      then (Some WriteError, s\<lparr>attempts := Suc (attempts s)\<rparr>)
      else (None, s\<lparr>written := written s @ [p], attempts := Suc (attempts s)\<rparr>))"

definition Fprintf :: "string \<Rightarrow> sink \<Rightarrow> error option \<times> sink" where
  "Fprintf p s = Write p s"

definition Fprintln :: "sink \<Rightarrow> error option \<times> sink" where
  "Fprintln s = Write [CHR 0x0A] s"

section \<open>The colorized renderer (color.go)\<close>

definition colorReset :: string where "colorReset = CHR 0x1B # ''[0m''"
definition colorRed :: string where "colorRed = CHR 0x1B # ''[31m''"
definition colorGreen :: string where "colorGreen = CHR 0x1B # ''[32m''"
definition colorYellow :: string where "colorYellow = CHR 0x1B # ''[33m''"
definition colorBlue :: string where "colorBlue = CHR 0x1B # ''[34m''"
definition colorCyan :: string where "colorCyan = CHR 0x1B # ''[36m''"
definition colorGray :: string where "colorGray = CHR 0x1B # ''[90m''"
definition colorBold :: string where "colorBold = CHR 0x1B # ''[1m''"

record colorHandler =
  ch_w :: Writer
  ch_level :: Level
  ch_addSource :: bool
  ch_attrs :: slice
  ch_groups :: slice
  ch_mu :: nat
  ch_contextKeys :: "ContextKey list"

record colorHandlerOptions =
  o_Level :: "Level option"
  o_AddSource :: bool
  o_ContextKeys :: "ContextKey list"

text \<open>\<^verbatim>\<open>newColorHandler\<close> allocates the mutex; both slices start nil.\<close>

definition newColorHandler ::
  "Writer \<Rightarrow> colorHandlerOptions option \<Rightarrow> heap \<Rightarrow> colorHandler \<times> heap" where
  "newColorHandler w opts hp =
     (let lv = (case opts of None \<Rightarrow> None | Some opt \<Rightarrow> o_Level opt) in
      (\<lparr>ch_w = w,
        ch_level = (case lv of None \<Rightarrow> LevelInfo | Some l \<Rightarrow> l),
        ch_addSource = (case opts of None \<Rightarrow> False | Some opt \<Rightarrow> o_AddSource opt),
        ch_attrs = nilSlice,
        ch_groups = nilSlice,
        ch_mu = lim hp,
        ch_contextKeys = (case opts of None \<Rightarrow> [] | Some opt \<Rightarrow> o_ContextKeys opt)\<rparr>,
       hp\<lparr>lim := Suc (lim hp)\<rparr>))"

definition colorHandler_Enabled :: "colorHandler \<Rightarrow> Level \<Rightarrow> bool" where
  "colorHandler_Enabled h l = (ch_level h \<le> l)"

definition levelColor :: "Level \<Rightarrow> string" where
  "levelColor l =
     (if LevelError \<le> l then colorRed
      else if LevelWarn \<le> l then colorYellow
      else if LevelInfo \<le> l then colorGreen
      else colorBlue)"

definition levelString :: "Level \<Rightarrow> string" where
  "levelString l =
     (if LevelError \<le> l then ''ERROR''
      else if LevelWarn \<le> l then ''WARN''
      else if LevelInfo \<le> l then ''INFO''
      else ''DEBUG'')"

text \<open>The verb \<^verbatim>\<open>%-5s\<close>: the text, then spaces up to width 5.\<close>

definition fmtLeftJustify :: "nat \<Rightarrow> string \<Rightarrow> string" where
  "fmtLeftJustify n s = s @ replicate (n - length s) CHR '' ''"

text \<open>\<^verbatim>\<open>r.Time.Format(time.TimeOnly)\<close>: \<^verbatim>\<open>15:04:05\<close>.\<close>

definition twoDigits :: "nat \<Rightarrow> string" where
  "twoDigits n = [''0123456789'' ! (n div 10 mod 10), ''0123456789'' ! (n mod 10)]"

definition Format_TimeOnly :: "time \<Rightarrow> string" where
  "Format_TimeOnly t = twoDigits (hour t) @ '':'' @ twoDigits (minute t) @ '':'' @ twoDigits (second t)"

text \<open>The verb \<^verbatim>\<open>%v\<close> on \<^verbatim>\<open>a.Value.Any()\<close>, for values that are not groups.\<close>

fun fmtValue :: "Val \<Rightarrow> string" where
  "fmtValue (StringValue s) = s"
| "fmtValue (BoolValue b) = (if b then ''true'' else ''false'')"
| "fmtValue NilValue = ''<nil>''"
| "fmtValue (GroupValue as) = []"

text \<open>
  \<^verbatim>\<open>writeAttr\<close>. The loop over \<open>groups\<close> from the last index down to 0 puts each group
  name and a dot before the key. \<^verbatim>\<open>append(groups, a.Key)\<close> is the list extended by the
  key: the recursion is sequential and depth first, so a cell that \<^verbatim>\<open>append\<close> may reuse
  is never read again by an enclosing call.
\<close>

fun writeAttr :: "Attr \<Rightarrow> string list \<Rightarrow> sink \<Rightarrow> sink" where
  "writeAttr (Attr k v) groups s =
     (if Attr k v = zeroAttr then s
      else
        (let key = foldr (\<lambda>g key. g @ ''.'' @ key) groups k in
         case v of
           GroupValue attrs \<Rightarrow>
             (let newGroups = groups @ [k] in
              fold (\<lambda>ga s'. writeAttr ga newGroups s') attrs s)
         | _ \<Rightarrow> snd (Fprintf ('' '' @ colorCyan @ key @ colorReset @ ''='' @ fmtValue v) s)))"

text \<open>The loop of \<^verbatim>\<open>Handle\<close> over the ambient keys.\<close>

fun writeContextKeys :: "Context \<Rightarrow> ContextKey list \<Rightarrow> sink \<Rightarrow> sink" where
  "writeContextKeys ctx [] s = s"
| "writeContextKeys ctx (key # keys) s =
     writeContextKeys ctx keys
       (case ctx key of
          AnyString str \<Rightarrow>
            (if str \<noteq> []
             then snd (Fprintf ('' '' @ colorCyan @ key @ colorReset @ ''='' @ colorGray @ str @ colorReset) s)
             else s)
        | _ \<Rightarrow> s)"

definition colorHandler_Handle ::
  "colorHandler \<Rightarrow> Context option \<Rightarrow> Record \<Rightarrow> heap \<Rightarrow> sink \<Rightarrow> error option \<times> sink" where
  "colorHandler_Handle h ctx r hp s0 =
     (let timeStr = Format_TimeOnly (r_Time r);
          s1 = snd (Fprintf (colorGray @ timeStr @ colorReset @ '' '') s0);
          s2 = snd (Fprintf (levelColor (r_Level r) @ colorBold
                 @ fmtLeftJustify 5 (levelString (r_Level r)) @ colorReset @ '' '') s1);
          s3 = snd (Fprintf (colorBold @ r_Message r @ colorReset) s2);
          s4 = (case ctx of
                  None \<Rightarrow> s3
                | Some c \<Rightarrow>
                    if 0 < length (ch_contextKeys h) then writeContextKeys c (ch_contextKeys h) s3
                    else s3);
          groups = readStrings hp (ch_groups h);
          s5 = fold (\<lambda>attr s. writeAttr attr groups s) (readAttrs hp (ch_attrs h)) s4;
          s6 = fold (\<lambda>a s. writeAttr a groups s) (Record_Attrs hp r) s5;
          s7 = snd (Fprintln s6)
      in (None, s7))"

definition colorHandler_WithAttrs ::
  "colorHandler \<Rightarrow> Attr list \<Rightarrow> heap \<Rightarrow> colorHandler \<times> heap" where
  "colorHandler_WithAttrs h attrs hp =
     (case makeAttrs (readAttrs hp (ch_attrs h) @ attrs) hp of (newAttrs, hp') \<Rightarrow>
        (\<lparr>ch_w = ch_w h, ch_level = ch_level h, ch_addSource = ch_addSource h,
          ch_attrs = newAttrs, ch_groups = ch_groups h, ch_mu = ch_mu h,
          ch_contextKeys = ch_contextKeys h\<rparr>, hp'))"

definition colorHandler_WithGroup ::
  "colorHandler \<Rightarrow> string \<Rightarrow> heap \<Rightarrow> colorHandler \<times> heap" where
  "colorHandler_WithGroup h name hp =
     (case makeStrings (readStrings hp (ch_groups h) @ [name]) hp of (newGroups, hp') \<Rightarrow>
        (\<lparr>ch_w = ch_w h, ch_level = ch_level h, ch_addSource = ch_addSource h,
          ch_attrs = ch_attrs h, ch_groups = newGroups, ch_mu = ch_mu h,
          ch_contextKeys = ch_contextKeys h\<rparr>, hp'))"

section \<open>The context-injecting wrapper (handler.go)\<close>

text \<open>The loop of \<^verbatim>\<open>Handle\<close> that collects the attributes, in key order.\<close>

fun collectAttrs :: "Context \<Rightarrow> ContextKey list \<Rightarrow> Attr list \<Rightarrow> Attr list" where
  "collectAttrs ctx [] attrs = attrs"
| "collectAttrs ctx (key # keys) attrs =
     collectAttrs ctx keys
       (case ctx key of
          AnyString s \<Rightarrow> (if s \<noteq> [] then attrs @ [slog_String key s] else attrs)
        | _ \<Rightarrow> attrs)"

text \<open>
  \<^verbatim>\<open>contextHandler.Handle\<close>. The wrapped handler is any \<^verbatim>\<open>slog.Handler\<close>: \<open>inner\<close>
  is its \<^verbatim>\<open>Handle\<close> method, and the result of the wrapper is the result of that call.
\<close>

definition contextHandler_Handle ::
  "(Context option \<Rightarrow> Record \<Rightarrow> heap \<Rightarrow> 'r) \<Rightarrow> ContextKey list \<Rightarrow>
     Context option \<Rightarrow> Record \<Rightarrow> heap \<Rightarrow> 'r" where
  "contextHandler_Handle inner keys ctx r hp =
     (case ctx of
        None \<Rightarrow> inner ctx r hp
      | Some c \<Rightarrow>
          if 0 < length keys
          then (let attrs = collectAttrs c keys [] in
                if 0 < length attrs
                then (case Record_AddAttrs (Record_Clone r) attrs hp of
                        (r', hp') \<Rightarrow> inner ctx r' hp')
                else inner ctx r hp)
          else inner ctx r hp)"

text \<open>
  \<^verbatim>\<open>contextHandler.WithAttrs\<close> and \<^verbatim>\<open>contextHandler.WithGroup\<close>: the wrapper is the pair of
  the wrapped handler and the key list; \<open>innerWithAttrs\<close> and \<open>innerWithGroup\<close> are the
  methods of the wrapped handler, acting on whatever state that handler has.
\<close>

definition contextHandler_WithAttrs ::
  "('h \<Rightarrow> Attr list \<Rightarrow> 'st \<Rightarrow> 'h \<times> 'st) \<Rightarrow> 'h \<times> ContextKey list \<Rightarrow> Attr list \<Rightarrow> 'st
     \<Rightarrow> ('h \<times> ContextKey list) \<times> 'st" where
  "contextHandler_WithAttrs innerWithAttrs h attrs st =
     (case innerWithAttrs (fst h) attrs st of (inner', st') \<Rightarrow> ((inner', snd h), st'))"

definition contextHandler_WithGroup ::
  "('h \<Rightarrow> string \<Rightarrow> 'st \<Rightarrow> 'h \<times> 'st) \<Rightarrow> 'h \<times> ContextKey list \<Rightarrow> string \<Rightarrow> 'st
     \<Rightarrow> ('h \<times> ContextKey list) \<times> 'st" where
  "contextHandler_WithGroup innerWithGroup h name st =
     (case innerWithGroup (fst h) name st of (inner', st') \<Rightarrow> ((inner', snd h), st'))"

section \<open>Handler chain composition (logger.go)\<close>

datatype Handler =
    JSONHandler Writer Level bool
  | TextHandler Writer Level bool
  | ColorHandler colorHandler
  | ContextHandler Handler "ContextKey list"

definition newContextHandler :: "Handler \<Rightarrow> ContextKey list \<Rightarrow> Handler" where
  "newContextHandler inner keys = ContextHandler inner keys"

definition createHandler :: "terminal \<Rightarrow> config \<Rightarrow> heap \<Rightarrow> Handler \<times> heap" where
  "createHandler T cfg hp =
     (if shouldUseJSON cfg then
        (let baseHandler = JSONHandler (cfg_output cfg) (level cfg) (addSource cfg) in
         if 0 < length (contextKeys cfg)
         then (newContextHandler baseHandler (contextKeys cfg), hp)
         else (baseHandler, hp))
      else if shouldUseColor T cfg then
        (case newColorHandler (cfg_output cfg)
                (Some \<lparr>o_Level = Some (level cfg), o_AddSource = addSource cfg,
                       o_ContextKeys = contextKeys cfg\<rparr>) hp of
           (baseHandler, hp') \<Rightarrow> (ColorHandler baseHandler, hp'))
      else
        (let baseHandler = TextHandler (cfg_output cfg) (level cfg) (addSource cfg) in
         if 0 < length (contextKeys cfg)
         then (newContextHandler baseHandler (contextKeys cfg), hp)
         else (baseHandler, hp)))"

section \<open>The capturing test logger (mock.go)\<close>

text \<open>
  A \<^verbatim>\<open>TestLogger\<close> holds references: the mutex, a pointer to the slice of entries, and a
  map. The store holds what they refer to; \<open>nextRef\<close> is the next fresh reference. The
  map of an entry is made for that entry and never written again, so an entry carries it
  as a value.
\<close>

record LogEntry =
  e_Level :: Level
  e_Message :: string
  e_Attrs :: "string \<rightharpoonup> anyval"

record TestLogger =
  tl_mu :: nat
  tl_entries :: nat
  tl_attrs :: nat
  tl_group :: string

record store =
  entriesAt :: "nat \<Rightarrow> LogEntry list"
  mapsAt :: "nat \<Rightarrow> (string \<rightharpoonup> anyval)"
  nextRef :: nat

definition NewTestLogger :: "store \<Rightarrow> TestLogger \<times> store" where
  "NewTestLogger st =
     (let n = nextRef st in
      (\<lparr>tl_mu = n, tl_entries = Suc n, tl_attrs = Suc (Suc n), tl_group = []\<rparr>,
       st\<lparr>entriesAt := (entriesAt st)(Suc n := []),
          mapsAt := (mapsAt st)(Suc (Suc n) := Map.empty),
          nextRef := n + 3\<rparr>))"

text \<open>
  The loop \<^verbatim>\<open>for i := 0; i < len(args)-1; i += 2\<close> of \<^verbatim>\<open>log\<close>: it takes the arguments
  two at a time while two are left.
\<close>

fun logArgs :: "string \<Rightarrow> anyval list \<Rightarrow> (string \<rightharpoonup> anyval) \<Rightarrow> (string \<rightharpoonup> anyval)" where
  "logArgs grp (k # v # rest) m =
     logArgs grp rest
       (case k of
          AnyString key \<Rightarrow> m((if grp \<noteq> [] then grp @ ''.'' @ key else key) \<mapsto> v)
        | _ \<Rightarrow> m)"
| "logArgs grp _ m = m"

definition TestLogger_log ::
  "TestLogger \<Rightarrow> Level \<Rightarrow> string \<Rightarrow> anyval list \<Rightarrow> store \<Rightarrow> store" where
  "TestLogger_log t lvl msg args st =
     (let entry = \<lparr>e_Level = lvl, e_Message = msg,
                   e_Attrs = logArgs (tl_group t) args (mapsAt st (tl_attrs t))\<rparr>
      in st\<lparr>entriesAt := (entriesAt st)(tl_entries t := entriesAt st (tl_entries t) @ [entry])\<rparr>)"

definition TestLogger_Info :: "TestLogger \<Rightarrow> string \<Rightarrow> anyval list \<Rightarrow> store \<Rightarrow> store" where
  "TestLogger_Info t msg args st = TestLogger_log t LevelInfo msg args st"

text \<open>The loop of \<^verbatim>\<open>With\<close> over its arguments.\<close>

fun withArgs :: "anyval list \<Rightarrow> (string \<rightharpoonup> anyval) \<Rightarrow> (string \<rightharpoonup> anyval)" where
  "withArgs (k # v # rest) m =
     withArgs rest (case k of AnyString key \<Rightarrow> m(key \<mapsto> v) | _ \<Rightarrow> m)"
| "withArgs _ m = m"

definition TestLogger_With :: "TestLogger \<Rightarrow> anyval list \<Rightarrow> store \<Rightarrow> TestLogger \<times> store" where
  "TestLogger_With t args st =
     (let n = nextRef st in
      (\<lparr>tl_mu = tl_mu t, tl_entries = tl_entries t, tl_attrs = n, tl_group = tl_group t\<rparr>,
       st\<lparr>mapsAt := (mapsAt st)(n := withArgs args (mapsAt st (tl_attrs t))),
          nextRef := Suc n\<rparr>))"

definition TestLogger_WithGroup :: "TestLogger \<Rightarrow> string \<Rightarrow> store \<Rightarrow> TestLogger \<times> store" where
  "TestLogger_WithGroup t name st =
     (let newGroup = (if tl_group t \<noteq> [] then tl_group t @ ''.'' @ name else name);
          n = nextRef st in
      (\<lparr>tl_mu = tl_mu t, tl_entries = tl_entries t, tl_attrs = n, tl_group = newGroup\<rparr>,
       st\<lparr>mapsAt := (mapsAt st)(n := mapsAt st (tl_attrs t)), nextRef := Suc n\<rparr>))"

definition TestLogger_Entries :: "TestLogger \<Rightarrow> store \<Rightarrow> LogEntry list" where
  "TestLogger_Entries t st = entriesAt st (tl_entries t)"

definition TestLogger_Clear :: "TestLogger \<Rightarrow> store \<Rightarrow> store" where
  "TestLogger_Clear t st = st\<lparr>entriesAt := (entriesAt st)(tl_entries t := [])\<rparr>"

definition TestLogger_HasEntry :: "TestLogger \<Rightarrow> Level \<Rightarrow> string \<Rightarrow> store \<Rightarrow> bool" where
  "TestLogger_HasEntry t lvl msgSubstring st =
     list_ex (\<lambda>e. e_Level e = lvl \<and> strings_Contains (e_Message e) msgSubstring)
       (entriesAt st (tl_entries t))"

definition TestLogger_HasEntryWithAttr ::
  "TestLogger \<Rightarrow> Level \<Rightarrow> string \<Rightarrow> string \<Rightarrow> anyval \<Rightarrow> store \<Rightarrow> bool" where
  "TestLogger_HasEntryWithAttr t lvl msgSubstring key val st =
     list_ex (\<lambda>e. e_Level e = lvl \<and> strings_Contains (e_Message e) msgSubstring
                  \<and> e_Attrs e key = Some val)
       (entriesAt st (tl_entries t))"

definition TestLogger_Count :: "TestLogger \<Rightarrow> Level \<Rightarrow> store \<Rightarrow> nat" where
  "TestLogger_Count t lvl st = length (filter (\<lambda>e. e_Level e = lvl) (entriesAt st (tl_entries t)))"

definition TestLogger_Len :: "TestLogger \<Rightarrow> store \<Rightarrow> nat" where
  "TestLogger_Len t st = length (entriesAt st (tl_entries t))"

section \<open>Concrete inputs\<close>

definition noUnicode :: unicode where
  "noUnicode = \<lparr>mapToLower = (\<lambda>s. s), trimSpaceFunc = (\<lambda>s. s)\<rparr>"

definition noTerminal :: terminal where
  "noTerminal = \<lparr>isStdoutTerminal = False, isStderrTerminal = False\<rparr>"

definition onTerminal :: terminal where
  "onTerminal = \<lparr>isStdoutTerminal = True, isStderrTerminal = True\<rparr>"

text \<open>The empty heap. Address 0 is the array of the nil slice and is never allocated.\<close>

definition emptyHeap :: heap where
  "emptyHeap = \<lparr>attrArrays = (\<lambda>a. []), stringArrays = (\<lambda>a. []), lim = 1\<rparr>"

definition emptyStore :: store where
  "emptyStore = \<lparr>entriesAt = (\<lambda>a. []), mapsAt = (\<lambda>a. Map.empty), nextRef = 0\<rparr>"

definition workingSink :: sink where
  "workingSink = \<lparr>written = [], attempts = 0, failing = (\<lambda>n. False)\<rparr>"

definition brokenSink :: sink where
  "brokenSink = \<lparr>written = [], attempts = 0, failing = (\<lambda>n. True)\<rparr>"

text \<open>\<^verbatim>\<open>New(WithOutput(&buf))\<close> in an environment with no \<^verbatim>\<open>XLOG_\<close> variable set.\<close>

definition bufferConfig :: config where
  "bufferConfig = WithOutput (OtherWriter 0) (defaultConfig noUnicode (\<lambda>name. []))"

text \<open>A colorized renderer writing to a buffer, and a record at level Warn that carries the
  group \<^verbatim>\<open>{request: {method: "GET"}}\<close>.\<close>

definition bufferHandler :: colorHandler where
  "bufferHandler = fst (newColorHandler (OtherWriter 0) None emptyHeap)"

definition requestRecord :: Record where
  "requestRecord =
     \<lparr>r_Time = \<lparr>hour = 9, minute = 5, second = 42\<rparr>, r_Message = ''served'',
      r_Level = LevelWarn,
      r_front = [Attr ''request'' (GroupValue [Attr ''method'' (StringValue ''GET'')])],
      r_back = nilSlice\<rparr>"

text \<open>\<^verbatim>\<open>NewTestLogger()\<close> on the empty store.\<close>

definition testLogger :: TestLogger where
  "testLogger = fst (NewTestLogger emptyStore)"

definition testStore :: store where
  "testStore = snd (NewTestLogger emptyStore)"

text \<open>
  An ambient store carrying a request id and a trace id; a record whose inline array is
  full; and an inner handler that reports the attributes of the record it is given.
\<close>

definition requestContext :: Context where
  "requestContext = WithTraceID (WithRequestID Background ''req-123'') ''trace-456''"

definition fullRecord :: Record where
  "fullRecord =
     \<lparr>r_Time = \<lparr>hour = 9, minute = 5, second = 42\<rparr>, r_Message = ''served'',
      r_Level = LevelInfo,
      r_front = [slog_String ''a'' ''1'', slog_String ''b'' ''2'', slog_String ''c'' ''3'',
                 slog_String ''d'' ''4'', slog_String ''e'' ''5''],
      r_back = nilSlice\<rparr>"

definition delivered :: "Context option \<Rightarrow> Record \<Rightarrow> heap \<Rightarrow> Attr list" where
  "delivered ctx r hp = Record_Attrs hp r"

section \<open>Matching a level name\<close>

text \<open>
  The specification's "case-insensitive match, with surrounding whitespace": the input is
  whitespace, then a text that equals the word up to the case of its letters, then
  whitespace. \<open>sameLetter c d\<close> says that \<open>c\<close> is \<open>d\<close> or the capital of \<open>d\<close>.
\<close>

definition lowerLetter :: "char \<Rightarrow> bool" where
  "lowerLetter d = (CHR ''a'' \<le> d \<and> d \<le> CHR ''z'')"

definition sameLetter :: "char \<Rightarrow> char \<Rightarrow> bool" where
  "sameLetter c d = (c = d \<or> (of_char c :: nat) + 32 = of_char d)"

definition matchesWord :: "string \<Rightarrow> string \<Rightarrow> bool" where
  "matchesWord s w =
     (\<exists>pre core post. s = pre @ core @ post \<and> list_all asciiSpace pre \<and>
        list_all asciiSpace post \<and> list_all2 sameLetter core w)"

definition trimASCII :: "string \<Rightarrow> string" where
  "trimASCII s = rev (dropWhile asciiSpace (rev (dropWhile asciiSpace s)))"

section \<open>What a rendered line consists of\<close>

text \<open>
  The notions below are those of the specification; the theorems relate them to the code.
  \<open>emit\<close> hands texts to the writer one after the other and looks at no result. A sink is
  \<open>reliable\<close> when none of its calls fails.
\<close>

definition emit :: "string list \<Rightarrow> sink \<Rightarrow> sink" where
  "emit ps s = fold (\<lambda>p s'. snd (Write p s')) ps s"

definition reliable :: "sink \<Rightarrow> bool" where
  "reliable s = (\<forall>n. \<not> failing s n)"

text \<open>The dot-joined path of group names ending in a key.\<close>

fun joinDots :: "string list \<Rightarrow> string" where
  "joinDots [] = []"
| "joinDots [x] = x"
| "joinDots (x # y # ys) = x @ ''.'' @ joinDots (y # ys)"

text \<open>
  Flattening: an attribute that is not a group yields its qualified key and its value; a
  group yields, depth first and in order, what its members yield under the path extended
  by the name of the group; the zero attribute yields nothing.
\<close>

fun flatten :: "string list \<Rightarrow> Attr \<Rightarrow> (string \<times> Val) list" where
  "flatten path (Attr k v) =
     (if Attr k v = zeroAttr then []
      else (case v of
              GroupValue members \<Rightarrow> concat (map (flatten (path @ [k])) members)
            | _ \<Rightarrow> [(joinDots (path @ [k]), v)]))"

definition renderAttr :: "string \<times> Val \<Rightarrow> string" where
  "renderAttr kv = '' '' @ colorCyan @ fst kv @ colorReset @ ''='' @ fmtValue (snd kv)"

text \<open>The ambient attributes: the keys, in order, whose value is a string that is not empty.\<close>

definition presentString :: "Context \<Rightarrow> ContextKey \<Rightarrow> bool" where
  "presentString ctx key = (case ctx key of AnyString s \<Rightarrow> s \<noteq> [] | _ \<Rightarrow> False)"

definition stringOf :: "anyval \<Rightarrow> string" where
  "stringOf v = (case v of AnyString s \<Rightarrow> s | _ \<Rightarrow> [])"

definition ambientAttrs :: "Context option \<Rightarrow> ContextKey list \<Rightarrow> Attr list" where
  "ambientAttrs ctx keys =
     (case ctx of
        None \<Rightarrow> []
      | Some c \<Rightarrow> map (\<lambda>key. Attr key (StringValue (stringOf (c key)))) (filter (presentString c) keys))"

definition renderAmbient :: "Attr \<Rightarrow> string" where
  "renderAmbient a =
     '' '' @ colorCyan @ Key a @ colorReset @ ''='' @ colorGray @ fmtValue (Value a) @ colorReset"

text \<open>The severity field: color, bold, the label in a field of width 5, reset, a space.\<close>

definition levelField :: "Level \<Rightarrow> string" where
  "levelField l =
     (if 8 \<le> l then colorRed @ colorBold @ ''ERROR'' @ colorReset @ '' ''
      else if 4 \<le> l then colorYellow @ colorBold @ ''WARN '' @ colorReset @ '' ''
      else if 0 \<le> l then colorGreen @ colorBold @ ''INFO '' @ colorReset @ '' ''
      else colorBlue @ colorBold @ ''DEBUG'' @ colorReset @ '' '')"

text \<open>Padding on the left: spaces first, then the text.\<close>

definition leftPad :: "nat \<Rightarrow> string \<Rightarrow> string" where
  "leftPad n s = replicate (n - length s) CHR '' '' @ s"

text \<open>The texts of one line, in the order of the specification.\<close>

definition lineTexts :: "colorHandler \<Rightarrow> Context option \<Rightarrow> Record \<Rightarrow> heap \<Rightarrow> string list" where
  "lineTexts h ctx r hp =
     [colorGray @ Format_TimeOnly (r_Time r) @ colorReset @ '' '',
      levelField (r_Level r),
      colorBold @ r_Message r @ colorReset]
     @ map renderAmbient (ambientAttrs ctx (ch_contextKeys h))
     @ map renderAttr
         (concat (map (flatten (readStrings hp (ch_groups h)))
                    (readAttrs hp (ch_attrs h) @ Record_Attrs hp r)))
     @ [[CHR 0x0A]]"

text \<open>A leaf attribute wrapped in groups of the given names, outermost first.\<close>

definition nest :: "string list \<Rightarrow> Attr \<Rightarrow> Attr" where
  "nest names leaf = foldr (\<lambda>g a. Attr g (GroupValue [a])) names leaf"

fun isGroup :: "Val \<Rightarrow> bool" where
  "isGroup (GroupValue members) = True"
| "isGroup _ = False"

section \<open>Arguments of a log call, by position\<close>

text \<open>
  The complete pairs of an argument list are the arguments at the positions \<open>2i\<close> and
  \<open>2i + 1\<close>, for every \<open>i\<close> below half the length. \<open>putPair\<close> stores one pair whose key is
  a string, under the group prefix if there is one.
\<close>

definition completePairs :: "anyval list \<Rightarrow> (anyval \<times> anyval) list" where
  "completePairs args = map (\<lambda>i. (args ! (2 * i), args ! (2 * i + 1))) [0 ..< length args div 2]"

definition putPair :: "string \<Rightarrow> (string \<rightharpoonup> anyval) \<Rightarrow> anyval \<times> anyval \<Rightarrow> (string \<rightharpoonup> anyval)" where
  "putPair grp m kv =
     (case fst kv of
        AnyString key \<Rightarrow> m((if grp \<noteq> [] then grp @ ''.'' @ key else key) \<mapsto> snd kv)
      | _ \<Rightarrow> m)"

section \<open>Well-formed slices and records\<close>

text \<open>
  A slice of attributes is valid in a heap when its array has been allocated, is as long
  as the capacity, and the length does not exceed the capacity. A record built by the
  library keeps at most five attributes inline and uses the slice only when the inline
  array is full.
\<close>

definition validSlice :: "heap \<Rightarrow> slice \<Rightarrow> bool" where
  "validSlice hp s =
     (sl_ptr s < lim hp \<and> sl_len s \<le> sl_cap s \<and> length (attrArrays hp (sl_ptr s)) = sl_cap s)"

definition validRecord :: "heap \<Rightarrow> Record \<Rightarrow> bool" where
  "validRecord hp r =
     (validSlice hp (r_back r) \<and> length (r_front r) \<le> nAttrsInline \<and>
      (length (r_front r) < nAttrsInline \<longrightarrow> sl_len (r_back r) = 0))"

text \<open>A colorized renderer is valid in a heap when its two slices have been allocated.\<close>

definition validHandler :: "heap \<Rightarrow> colorHandler \<Rightarrow> bool" where
  "validHandler hp h = (sl_ptr (ch_attrs h) < lim hp \<and> sl_ptr (ch_groups h) < lim hp)"

section \<open>Lemmas: strings\<close>

lemma of_char_lt_256_nat: "(of_char c :: nat) < 256"
  by (metis of_char_mod_256 mod_less_divisor zero_less_numeral)

lemma toLowerASCII_lowerLetter:
  assumes "lowerLetter d"
  shows "(toLowerASCII c = d) = sameLetter c d"
proof -
  have d: "97 \<le> (of_char d :: nat)" "(of_char d :: nat) \<le> 122"
    using assms by (simp_all add: lowerLetter_def less_eq_char_def)
  have c: "(of_char c :: nat) < 256" by (rule of_char_lt_256_nat)
  show ?thesis
  proof (cases "CHR ''A'' \<le> c \<and> c \<le> CHR ''Z''")
    case True
    then have u: "65 \<le> (of_char c :: nat)" "(of_char c :: nat) \<le> 90"
      by (simp_all add: less_eq_char_def)
    have "(char_of ((of_char c :: nat) + 32) = d) = ((of_char c :: nat) + 32 = of_char d)"
    proof
      assume "char_of ((of_char c :: nat) + 32) = d"
      then have "(of_char d :: nat) = (of_char c + 32) mod 256"
        by (metis of_char_of)
      with u show "(of_char c :: nat) + 32 = of_char d" by simp
    next
      assume "(of_char c :: nat) + 32 = of_char d"
      then show "char_of ((of_char c :: nat) + 32) = d" by simp
    qed
    moreover have "c \<noteq> d" using u d by auto
    ultimately show ?thesis using True by (simp add: toLowerASCII_def sameLetter_def)
  next
    case False
    then have "(of_char c :: nat) < 65 \<or> 90 < (of_char c :: nat)"
      by (auto simp add: less_eq_char_def)
    then have "(of_char c :: nat) + 32 \<noteq> of_char d"
      using d by arith
    then show ?thesis using False by (auto simp add: toLowerASCII_def sameLetter_def)
  qed
qed

lemma ToLower_matches:
  assumes "list_all lowerLetter w"
  shows "(map toLowerASCII t = w) = list_all2 sameLetter t w"
  using assms
proof (induction t arbitrary: w)
  case Nil
  then show ?case by auto
next
  case (Cons c t)
  then show ?case
    by (cases w) (auto simp add: toLowerASCII_lowerLetter)
qed

lemma trimASCII_decompose:
  "\<exists>pre post. s = pre @ trimASCII s @ post \<and> list_all asciiSpace pre \<and> list_all asciiSpace post"
proof -
  let ?m = "dropWhile asciiSpace s"
  have 1: "s = takeWhile asciiSpace s @ ?m" by simp
  have 2: "rev ?m = takeWhile asciiSpace (rev ?m) @ dropWhile asciiSpace (rev ?m)" by simp
  have 3: "?m = trimASCII s @ rev (takeWhile asciiSpace (rev ?m))"
    unfolding trimASCII_def by (metis 2 rev_append rev_rev_ident)
  have "s = takeWhile asciiSpace s @ trimASCII s @ rev (takeWhile asciiSpace (rev ?m))"
    using 1 3 by metis
  moreover have "list_all asciiSpace (takeWhile asciiSpace s)"
    by (simp add: list_all_iff) (meson set_takeWhileD)
  moreover have "list_all asciiSpace (rev (takeWhile asciiSpace (rev ?m)))"
    by (simp add: list_all_iff) (meson set_takeWhileD)
  ultimately show ?thesis by blast
qed

lemma trimASCII_core:
  assumes "list_all asciiSpace pre" "list_all asciiSpace post"
    and "core \<noteq> []" "\<not> asciiSpace (hd core)" "\<not> asciiSpace (last core)"
  shows "trimASCII (pre @ core @ post) = core"
proof -
  have a: "dropWhile asciiSpace (pre @ core @ post) = core @ post"
    using assms(1,3,4) by (cases core) (simp_all add: dropWhile_append list_all_iff)
  have b: "dropWhile asciiSpace (rev post @ rev core) = rev core"
    using assms(2,3,5) by (cases core rule: rev_cases) (simp_all add: dropWhile_append list_all_iff)
  show ?thesis by (simp add: trimASCII_def a b)
qed

lemma lowerLetter_not_space: "lowerLetter d \<Longrightarrow> sameLetter c d \<Longrightarrow> \<not> asciiSpace c"
  by (auto simp add: lowerLetter_def sameLetter_def asciiSpace_def less_eq_char_def)

lemma matches_core:
  assumes "list_all lowerLetter w" "w \<noteq> []" "list_all2 sameLetter core w"
  shows "core \<noteq> [] \<and> \<not> asciiSpace (hd core) \<and> \<not> asciiSpace (last core)"
proof -
  have len: "length core = length w" using assms(3) by (rule list_all2_lengthD)
  then have ne: "core \<noteq> []" using assms(2) by auto
  have "\<forall>c \<in> set core. \<not> asciiSpace c"
    using assms(1,3) lowerLetter_not_space
    by (metis in_set_conv_nth list_all2_conv_all_nth list_all_length)
  then show ?thesis using ne by simp
qed

lemma matchesWord_iff:
  assumes "list_all lowerLetter w" "w \<noteq> []"
  shows "matchesWord s w = (map toLowerASCII (trimASCII s) = w)"
proof
  assume "matchesWord s w"
  then obtain pre core post where s: "s = pre @ core @ post"
    and sp: "list_all asciiSpace pre" "list_all asciiSpace post"
    and m: "list_all2 sameLetter core w"
    unfolding matchesWord_def by blast
  have "trimASCII s = core"
    unfolding s using sp matches_core [OF assms m] by (intro trimASCII_core) simp_all
  then show "map toLowerASCII (trimASCII s) = w"
    using m by (simp add: ToLower_matches [OF assms(1)])
next
  assume "map toLowerASCII (trimASCII s) = w"
  then have "list_all2 sameLetter (trimASCII s) w"
    by (simp add: ToLower_matches [OF assms(1)])
  then show "matchesWord s w"
    unfolding matchesWord_def using trimASCII_decompose [of s] by blast
qed

lemma isASCII_trim: "list_all isASCII s \<Longrightarrow> list_all isASCII (trimASCII s)"
  unfolding trimASCII_def list_all_iff
  by (metis set_dropWhileD set_rev)

section \<open>Lemmas: configuration\<close>

lemma bufferConfig_eq:
  "bufferConfig = \<lparr>env = EnvDevelopment, level = LevelDebug, cfg_output = OtherWriter 0,
     contextKeys = [], addSource = False, useColor = None\<rparr>"
  by (simp add: bufferConfig_def defaultConfig_def WithOutput_def detectEnv_def detectLevel_def
      defaultLevelForEnv_def strings_ToLower_def strings_TrimSpace_def Let_def
      EnvDevelopment_def EnvProduction_def EnvStaging_def)

section \<open>Lemmas: the colorized renderer\<close>

lemma emit_Nil: "emit [] s = s"
  by (simp add: emit_def)

lemma emit_Cons: "emit (p # ps) s = emit ps (snd (Write p s))"
  by (simp add: emit_def)

lemma emit_append: "emit (ps @ qs) s = emit qs (emit ps s)"
  by (simp add: emit_def)

lemma emit_single: "snd (Fprintf p s) = emit [p] s"
  by (simp add: emit_def Fprintf_def)

lemma fold_emit: "fold (\<lambda>x s'. emit (f x) s') xs s = emit (concat (map f xs)) s"
  by (induction xs arbitrary: s) (simp_all add: emit_Nil emit_append)

lemma failing_emit: "failing (emit ps s) = failing s"
  by (induction ps arbitrary: s) (simp_all add: emit_Nil emit_Cons Write_def)

lemma attempts_emit: "attempts (emit ps s) = attempts s + length ps"
  by (induction ps arbitrary: s) (simp_all add: emit_Nil emit_Cons Write_def)

lemma written_emit: "reliable s \<Longrightarrow> written (emit ps s) = written s @ ps"
proof (induction ps arbitrary: s)
  case Nil
  then show ?case by (simp add: emit_Nil)
next
  case (Cons p ps)
  have "reliable (snd (Write p s))"
    using Cons.prems by (simp add: reliable_def Write_def)
  then show ?case
    using Cons.IH [of "snd (Write p s)"] Cons.prems
    by (simp add: emit_Cons Write_def reliable_def)
qed

lemma written_emit_failing: "\<forall>n. failing s n \<Longrightarrow> written (emit ps s) = written s"
proof (induction ps arbitrary: s)
  case Nil
  then show ?case by (simp add: emit_Nil)
next
  case (Cons p ps)
  then show ?case by (simp add: emit_Cons Write_def)
qed

lemma foldr_joinDots: "foldr (\<lambda>g key. g @ ''.'' @ key) groups k = joinDots (groups @ [k])"
proof (induction groups)
  case Nil
  then show ?case by simp
next
  case (Cons g gs)
  then show ?case by (cases gs) simp_all
qed

lemma writeAttr_emit: "writeAttr a groups s = emit (map renderAttr (flatten groups a)) s"
proof (induction a groups s rule: writeAttr.induct)
  case (1 k v groups s)
  show ?case
  proof (cases "Attr k v = zeroAttr")
    case True
    then show ?thesis by (simp add: emit_Nil zeroAttr_def)
  next
    case nz: False
    show ?thesis
    proof (cases v)
      case (GroupValue members)
      have "fold (\<lambda>ga s'. writeAttr ga (groups @ [k]) s') members s
            = fold (\<lambda>ga s'. emit (map renderAttr (flatten (groups @ [k]) ga)) s') members s"
        using "1.IH" nz GroupValue by (intro fold_cong) auto
      then show ?thesis
        using nz GroupValue by (simp add: fold_emit map_concat comp_def)
    qed (use nz foldr_joinDots [of groups k] in \<open>simp_all add: emit_single renderAttr_def\<close>)
  qed
qed

lemma writeContextKeys_emit:
  "writeContextKeys c keys s = emit (map renderAmbient (ambientAttrs (Some c) keys)) s"
proof (induction keys arbitrary: s)
  case Nil
  then show ?case by (simp add: ambientAttrs_def emit_Nil)
next
  case (Cons key keys)
  show ?case
  proof (cases "presentString c key")
    case True
    then obtain str where v: "c key = AnyString str" "str \<noteq> []"
      by (auto simp add: presentString_def split: anyval.splits)
    have pay: "renderAmbient (Attr key (StringValue str))
               = '' '' @ colorCyan @ key @ colorReset @ ''='' @ colorGray @ str @ colorReset"
      by (simp add: renderAmbient_def)
    have "writeContextKeys c (key # keys) s
          = emit (map renderAmbient (ambientAttrs (Some c) keys)) (emit [renderAmbient (Attr key (StringValue str))] s)"
      using v by (simp add: Cons.IH emit_def Fprintf_def pay)
    then show ?thesis
      using True v by (simp add: ambientAttrs_def stringOf_def emit_Cons emit_Nil)
  next
    case False
    then have "writeContextKeys c (key # keys) s = writeContextKeys c keys s"
      by (auto simp add: presentString_def split: anyval.splits)
    then show ?thesis
      using False by (simp add: Cons.IH ambientAttrs_def)
  qed
qed

lemma levelField_eq:
  "levelColor l @ colorBold @ fmtLeftJustify 5 (levelString l) @ colorReset @ '' '' = levelField l"
  by (simp add: levelColor_def levelString_def levelField_def fmtLeftJustify_def
      LevelError_def LevelWarn_def LevelInfo_def)

lemma colorHandler_Handle_emit:
  "colorHandler_Handle h ctx r hp s = (None, emit (lineTexts h ctx r hp) s)"
proof -
  have ctx: "(case ctx of None \<Rightarrow> s3
              | Some c \<Rightarrow> if 0 < length (ch_contextKeys h)
                          then writeContextKeys c (ch_contextKeys h) s3 else s3)
             = emit (map renderAmbient (ambientAttrs ctx (ch_contextKeys h))) s3" for s3
    by (cases ctx) (simp_all add: ambientAttrs_def emit_Nil writeContextKeys_emit [unfolded ambientAttrs_def, simplified])
  show ?thesis
    unfolding colorHandler_Handle_def Let_def ctx writeAttr_emit fold_emit Fprintf_def Fprintln_def
      levelField_eq lineTexts_def
    by (simp add: emit_append emit_Cons emit_Nil map_concat comp_def)
qed

lemma flatten_nest:
  assumes "\<not> isGroup (Value leaf)" "leaf \<noteq> zeroAttr"
  shows "flatten path (nest names leaf) = [(joinDots (path @ names @ [Key leaf]), Value leaf)]"
proof (induction names arbitrary: path)
  case Nil
  then show ?case
    using assms by (cases leaf; cases "Value leaf") (simp_all add: nest_def)
next
  case (Cons g names)
  have "nest (g # names) leaf = Attr g (GroupValue [nest names leaf])"
    by (simp add: nest_def)
  then show ?case
    using Cons.IH [of "path @ [g]"] by (simp add: zeroAttr_def)
qed

lemma reliable_workingSink: "reliable workingSink"
  by (simp add: reliable_def workingSink_def)

lemma bufferHandler_eq:
  "bufferHandler = \<lparr>ch_w = OtherWriter 0, ch_level = LevelInfo, ch_addSource = False,
     ch_attrs = nilSlice, ch_groups = nilSlice, ch_mu = 1, ch_contextKeys = []\<rparr>"
  by (simp add: bufferHandler_def newColorHandler_def emptyHeap_def)

lemma request_line:
  "lineTexts bufferHandler None requestRecord emptyHeap =
     [colorGray @ ''09:05:42'' @ colorReset @ '' '',
      colorYellow @ colorBold @ ''WARN '' @ colorReset @ '' '',
      colorBold @ ''served'' @ colorReset,
      '' '' @ colorCyan @ ''request.method'' @ colorReset @ ''=GET'',
      [CHR 0x0A]]"
  by (simp add: lineTexts_def bufferHandler_eq requestRecord_def emptyHeap_def nilSlice_def
      readAttrs_def readStrings_def Record_Attrs_def ambientAttrs_def Format_TimeOnly_def
      twoDigits_def levelField_def LevelWarn_def renderAttr_def zeroAttr_def)

section \<open>Lemmas: the test logger\<close>

lemma completePairs_Cons2: "completePairs (k # v # rest) = (k, v) # completePairs rest"
proof -
  have "length (k # v # rest) div 2 = Suc (length rest div 2)" by simp
  then show ?thesis
    unfolding completePairs_def by (simp add: map_upt_Suc del: upt_Suc)
qed

lemma completePairs_short: "length args < 2 \<Longrightarrow> completePairs args = []"
  by (simp add: completePairs_def)

lemma putPair_pair:
  "putPair grp m (k, v)
     = (case k of
          AnyString key \<Rightarrow> m((if grp \<noteq> [] then grp @ ''.'' @ key else key) \<mapsto> v)
        | _ \<Rightarrow> m)"
  by (simp add: putPair_def split: anyval.split)

lemma logArgs_foldl: "logArgs grp args m = foldl (putPair grp) m (completePairs args)"
  by (induction grp args m rule: logArgs.induct)
    (simp_all add: completePairs_Cons2 putPair_pair completePairs_short)

lemma completePairs_butlast:
  assumes "odd (length args)"
  shows "completePairs (butlast args) = completePairs args"
proof -
  have len: "length (butlast args) div 2 = length args div 2"
    using assms by (cases args) (auto elim!: oddE)
  have "(butlast args ! (2 * i), butlast args ! (2 * i + 1)) = (args ! (2 * i), args ! (2 * i + 1))"
    if "i < length args div 2" for i
  proof -
    have "2 * i + 1 < length args - 1" using that assms by (auto elim!: oddE)
    then show ?thesis by (simp add: nth_butlast)
  qed
  then show ?thesis
    unfolding completePairs_def len by (intro map_cong) auto
qed

lemma testLogger_eq:
  "testLogger = \<lparr>tl_mu = 0, tl_entries = 1, tl_attrs = 2, tl_group = []\<rparr>"
  by (simp add: testLogger_def NewTestLogger_def emptyStore_def Let_def)

lemma testStore_eq:
  "testStore = \<lparr>entriesAt = (\<lambda>a. []), mapsAt = (\<lambda>a. Map.empty), nextRef = 3\<rparr>"
  by (simp add: testStore_def NewTestLogger_def emptyStore_def Let_def fun_eq_iff)

section \<open>Lemmas: records on the heap\<close>

lemma collectAttrs_ambient:
  "collectAttrs c keys acc = acc @ ambientAttrs (Some c) keys"
proof (induction keys arbitrary: acc)
  case Nil
  then show ?case by (simp add: ambientAttrs_def)
next
  case (Cons key keys)
  show ?case
  proof (cases "c key")
    case (AnyString s)
    then show ?thesis
      by (simp add: Cons.IH ambientAttrs_def presentString_def stringOf_def slog_String_def)
  qed (simp_all add: Cons.IH ambientAttrs_def presentString_def)
qed

lemma ambientAttrs_no_empty_group:
  "a \<in> set (ambientAttrs ctx keys) \<Longrightarrow> \<not> isEmptyGroup (Value a)"
  by (cases ctx) (auto simp add: ambientAttrs_def)

lemma fillFront_plain:
  assumes "\<forall>a \<in> set as. \<not> isEmptyGroup (Value a)" "length front \<le> nAttrsInline"
  shows "fillFront front as
           = (front @ take (nAttrsInline - length front) as, drop (nAttrsInline - length front) as)"
  using assms
proof (induction as arbitrary: front)
  case Nil
  then show ?case by simp
next
  case (Cons a as)
  show ?case
  proof (cases "length front < nAttrsInline")
    case True
    then obtain d where d: "nAttrsInline - length front = Suc d"
      by (metis Suc_diff_Suc)
    have "fillFront front (a # as) = fillFront (front @ [a]) as"
      using True Cons.prems by simp
    also have "\<dots> = ((front @ [a]) @ take d as, drop d as)"
    proof -
      have "nAttrsInline - length (front @ [a]) = d" using d by simp
      then show ?thesis
        using Cons.IH [of "front @ [a]"] Cons.prems True by simp
    qed
    finally show ?thesis using d by simp
  next
    case False
    then show ?thesis by simp
  qed
qed

lemma appendAll_in_place:
  assumes "sl_len s + length as \<le> sl_cap s"
    and "length (attrArrays hp (sl_ptr s)) = sl_cap s"
    and "\<forall>a \<in> set as. \<not> isEmptyGroup (Value a)"
  shows "appendAll s as hp =
     (s\<lparr>sl_len := sl_len s + length as\<rparr>,
      hp\<lparr>attrArrays := (attrArrays hp)
           (sl_ptr s := take (sl_len s) (attrArrays hp (sl_ptr s)) @ as
                        @ drop (sl_len s + length as) (attrArrays hp (sl_ptr s)))\<rparr>)"
  using assms
proof (induction as arbitrary: s hp)
  case Nil
  then show ?case by simp
next
  case (Cons a as)
  let ?arr = "attrArrays hp (sl_ptr s)"
  let ?s1 = "s\<lparr>sl_len := Suc (sl_len s)\<rparr>"
  let ?hp1 = "hp\<lparr>attrArrays := (attrArrays hp)(sl_ptr s := ?arr[sl_len s := a])\<rparr>"
  have lt: "sl_len s < sl_cap s" using Cons.prems(1) by simp
  have step: "appendAttr s a hp = (?s1, ?hp1)"
    using lt by (simp add: appendAttr_def)
  have ih: "appendAll ?s1 as ?hp1 =
     (?s1\<lparr>sl_len := sl_len ?s1 + length as\<rparr>,
      ?hp1\<lparr>attrArrays := (attrArrays ?hp1)
           (sl_ptr ?s1 := take (sl_len ?s1) (attrArrays ?hp1 (sl_ptr ?s1)) @ as
                        @ drop (sl_len ?s1 + length as) (attrArrays ?hp1 (sl_ptr ?s1)))\<rparr>)"
    using Cons.prems by (intro Cons.IH) simp_all
  have t: "take (Suc (sl_len s)) (?arr[sl_len s := a]) = take (sl_len s) ?arr @ [a]"
    using lt Cons.prems(2) by (simp add: take_Suc_conv_app_nth)
  have f: "(attrArrays ?hp1)
             (sl_ptr ?s1 := take (sl_len ?s1) (attrArrays ?hp1 (sl_ptr ?s1)) @ as
                        @ drop (sl_len ?s1 + length as) (attrArrays ?hp1 (sl_ptr ?s1)))
           = (attrArrays hp)
             (sl_ptr s := take (sl_len s) ?arr @ (a # as) @ drop (sl_len s + length (a # as)) ?arr)"
    by (simp add: t)
  have "appendAll s (a # as) hp = appendAll ?s1 as ?hp1"
    using Cons.prems(3) by (simp add: step)
  also have "\<dots> = (s\<lparr>sl_len := sl_len s + length (a # as)\<rparr>,
      hp\<lparr>attrArrays := (attrArrays hp)
           (sl_ptr s := take (sl_len s) ?arr @ (a # as) @ drop (sl_len s + length (a # as)) ?arr)\<rparr>)"
    unfolding ih f by simp
  finally show ?case .
qed

lemma readAttrs_Clip: "readAttrs hp (Clip s) = readAttrs hp s"
  by (simp add: readAttrs_def Clip_def)

lemma AddAttrs_Clone:
  assumes v: "validRecord hp r" and ne: "\<forall>a \<in> set as. \<not> isEmptyGroup (Value a)"
  shows "\<exists>r' hp'. Record_AddAttrs (Record_Clone r) as hp = (r', hp') \<and>
           Record_Attrs hp' r' = Record_Attrs hp r @ as \<and>
           r_Time r' = r_Time r \<and> r_Message r' = r_Message r \<and> r_Level r' = r_Level r \<and>
           (\<forall>a < lim hp. attrArrays hp' a = attrArrays hp a) \<and>
           stringArrays hp' = stringArrays hp \<and> lim hp \<le> lim hp'"
proof -
  let ?k = "nAttrsInline - length (r_front r)"
  let ?b = "Clip (r_back r)"
  let ?rest = "drop ?k as"
  have vs: "sl_ptr (r_back r) < lim hp" "sl_len (r_back r) \<le> sl_cap (r_back r)"
      "length (attrArrays hp (sl_ptr (r_back r))) = sl_cap (r_back r)"
    and fl: "length (r_front r) \<le> nAttrsInline"
    and inv: "length (r_front r) < nAttrsInline \<Longrightarrow> sl_len (r_back r) = 0"
    using v by (simp_all add: validRecord_def validSlice_def)
  have ff: "fillFront (r_front (Record_Clone r)) as = (r_front r @ take ?k as, ?rest)"
    using fillFront_plain [OF ne fl] by (simp add: Record_Clone_def)
  have nobug: "\<not> (sl_len (r_back (Record_Clone r)) < sl_cap (r_back (Record_Clone r)))"
    by (simp add: Record_Clone_def Clip_def)
  have flt: "filter (\<lambda>a. \<not> isEmptyGroup (Value a)) ?rest = ?rest"
    using ne by (auto simp add: filter_id_conv dest: in_set_dropD)
  have rest_ne: "\<forall>a \<in> set ?rest. \<not> isEmptyGroup (Value a)"
    using ne by (auto dest: in_set_dropD)
  have order: "r_front r @ take ?k as @ readAttrs hp (r_back r) @ ?rest
               = Record_Attrs hp r @ as"
  proof (cases "?k = 0")
    case True
    then show ?thesis by (simp add: Record_Attrs_def)
  next
    case False
    then have "sl_len (r_back r) = 0" using inv by simp
    then show ?thesis by (simp add: Record_Attrs_def readAttrs_def)
  qed
  show ?thesis
  proof (cases "?rest = []")
    case True
    have "Record_AddAttrs (Record_Clone r) as hp
          = ((Record_Clone r)\<lparr>r_front := r_front r @ take ?k as, r_back := ?b\<rparr>, hp)"
      unfolding Record_AddAttrs_def ff using nobug True
      by (simp add: Grow_def Record_Clone_def)
    moreover have "Record_Attrs hp ((Record_Clone r)\<lparr>r_front := r_front r @ take ?k as, r_back := ?b\<rparr>)
          = Record_Attrs hp r @ as"
      using order True by (simp add: Record_Attrs_def readAttrs_Clip)
    ultimately show ?thesis
      by (simp add: Record_Clone_def)
  next
    case False
    define old where "old = readAttrs hp (r_back r)"
    define rest where "rest = drop ?k as"
    define n where "n = length rest"
    have lo: "length old = sl_len (r_back r)"
      using vs by (simp add: old_def readAttrs_def)
    have tk: "take (length old) (attrArrays hp (sl_ptr (r_back r))) = old"
      unfolding lo by (simp add: old_def readAttrs_def)
    let ?s2 = "\<lparr>sl_ptr = lim hp, sl_len = length old, sl_cap = length old + n\<rparr>"
    let ?hp2 = "hp\<lparr>attrArrays := (attrArrays hp)(lim hp := old @ replicate n zeroAttr),
                   lim := Suc (lim hp)\<rparr>"
    let ?s3 = "?s2\<lparr>sl_len := length old + n\<rparr>"
    let ?hp3 = "?hp2\<lparr>attrArrays := (attrArrays ?hp2)(lim hp := old @ rest)\<rparr>"
    have n: "0 < n" using False by (simp add: n_def rest_def)
    have grow: "Grow ?b n hp = (?s2, ?hp2)"
      using n by (simp add: Grow_def Clip_def tk lo [symmetric] Let_def)
    have "appendAll ?s2 rest ?hp2 =
       (?s2\<lparr>sl_len := sl_len ?s2 + length rest\<rparr>,
        ?hp2\<lparr>attrArrays := (attrArrays ?hp2)
           (sl_ptr ?s2 := take (sl_len ?s2) (attrArrays ?hp2 (sl_ptr ?s2)) @ rest
                        @ drop (sl_len ?s2 + length rest) (attrArrays ?hp2 (sl_ptr ?s2)))\<rparr>)"
      using rest_ne by (intro appendAll_in_place) (simp_all add: n_def rest_def)
    then have app: "appendAll ?s2 rest ?hp2 = (?s3, ?hp3)"
      by (simp add: n_def)
    have "Record_AddAttrs (Record_Clone r) as hp
          = ((Record_Clone r)\<lparr>r_front := r_front r @ take ?k as, r_back := ?s3\<rparr>, ?hp3)"
      unfolding Record_AddAttrs_def ff using nobug flt
      by (simp add: Record_Clone_def grow app rest_def [symmetric] n_def [symmetric])
    moreover have "readAttrs ?hp3 ?s3 = old @ rest"
      by (simp add: readAttrs_def n_def)
    then have "Record_Attrs ?hp3 ((Record_Clone r)\<lparr>r_front := r_front r @ take ?k as, r_back := ?s3\<rparr>)
          = Record_Attrs hp r @ as"
      using order by (simp add: Record_Attrs_def old_def rest_def)
    ultimately show ?thesis
      by (simp add: Record_Clone_def)
  qed
qed

lemma validRecord_fullRecord: "validRecord emptyHeap fullRecord"
  by (simp add: validRecord_def validSlice_def emptyHeap_def fullRecord_def nilSlice_def nAttrsInline_def)

lemma ambient_request:
  "ambientAttrs (Some requestContext) [''request_id'', ''span_id'', ''trace_id'']
     = [Attr ''request_id'' (StringValue ''req-123''), Attr ''trace_id'' (StringValue ''trace-456'')]"
  by (simp add: ambientAttrs_def requestContext_def WithTraceID_def WithRequestID_def Background_def
      KeyRequestID_def KeyTraceID_def presentString_def stringOf_def)

lemma lineTexts_frame:
  assumes "\<forall>a < lim hp. attrArrays hp' a = attrArrays hp a \<and> stringArrays hp' a = stringArrays hp a"
    and "validHandler hp h" "sl_ptr (r_back r) < lim hp"
  shows "lineTexts h ctx r hp' = lineTexts h ctx r hp"
  using assms
  by (simp add: lineTexts_def readAttrs_def readStrings_def Record_Attrs_def validHandler_def)

lemma readAttrs_makeAttrs:
  "readAttrs (snd (makeAttrs xs hp)) (fst (makeAttrs xs hp)) = xs"
  by (simp add: makeAttrs_def readAttrs_def)

lemma readStrings_makeStrings:
  "readStrings (snd (makeStrings xs hp)) (fst (makeStrings xs hp)) = xs"
  by (simp add: makeStrings_def readStrings_def)

lemma read_after_makeAttrs:
  "sl_ptr s < lim hp \<Longrightarrow> readAttrs (snd (makeAttrs xs hp)) s = readAttrs hp s"
  "readStrings (snd (makeAttrs xs hp)) s = readStrings hp s"
  by (simp_all add: makeAttrs_def readAttrs_def readStrings_def)

lemma read_after_makeStrings:
  "readAttrs (snd (makeStrings xs hp)) s = readAttrs hp s"
  "sl_ptr s < lim hp \<Longrightarrow> readStrings (snd (makeStrings xs hp)) s = readStrings hp s"
  by (simp_all add: makeStrings_def readAttrs_def readStrings_def)

section \<open>Claims\<close>

subsection \<open>C9: ParseLevel\<close>

text \<open>
  Claim C9. \<^verbatim>\<open>ParseLevel\<close> returns Debug for "debug", Info for "info", Warn for "warn" or
  "warning" and Error for "error", whatever the case of the letters and whatever
  whitespace surrounds the word, and Info for every other string, the empty string
  included. For every input the level is decided by the trimmed and lowered text. For
  ASCII input, on which the Go library works byte by byte, that is the same as: the
  input is whitespace, a spelling of the word in any case, whitespace.
\<close>

theorem ParseLevel_spec:
  "(ParseLevel U s = LevelDebug \<longleftrightarrow> strings_ToLower U (strings_TrimSpace U s) = ''debug'') \<and>
   (ParseLevel U s = LevelWarn \<longleftrightarrow>
      strings_ToLower U (strings_TrimSpace U s) = ''warn''
      \<or> strings_ToLower U (strings_TrimSpace U s) = ''warning'') \<and>
   (ParseLevel U s = LevelError \<longleftrightarrow> strings_ToLower U (strings_TrimSpace U s) = ''error'') \<and>
   (ParseLevel U s = LevelInfo \<longleftrightarrow>
      strings_ToLower U (strings_TrimSpace U s) \<notin> {''debug'', ''warn'', ''warning'', ''error''}) \<and>
   ParseLevel U [] = LevelInfo \<and>
   (list_all isASCII s \<longrightarrow>
      ParseLevel U s =
        (if matchesWord s ''debug'' then LevelDebug
         else if matchesWord s ''info'' then LevelInfo
         else if matchesWord s ''warn'' \<or> matchesWord s ''warning'' then LevelWarn
         else if matchesWord s ''error'' then LevelError
         else LevelInfo))"
proof -
  have gen: "(ParseLevel U s = LevelDebug \<longleftrightarrow> strings_ToLower U (strings_TrimSpace U s) = ''debug'') \<and>
   (ParseLevel U s = LevelWarn \<longleftrightarrow>
      strings_ToLower U (strings_TrimSpace U s) = ''warn''
      \<or> strings_ToLower U (strings_TrimSpace U s) = ''warning'') \<and>
   (ParseLevel U s = LevelError \<longleftrightarrow> strings_ToLower U (strings_TrimSpace U s) = ''error'') \<and>
   (ParseLevel U s = LevelInfo \<longleftrightarrow>
      strings_ToLower U (strings_TrimSpace U s) \<notin> {''debug'', ''warn'', ''warning'', ''error''})"
    by (simp add: ParseLevel_def Let_def LevelDebug_def LevelInfo_def LevelWarn_def LevelError_def)
  have emp: "ParseLevel U [] = LevelInfo"
    by (simp add: ParseLevel_def strings_ToLower_def strings_TrimSpace_def)
  have ascii: "ParseLevel U s =
        (if matchesWord s ''debug'' then LevelDebug
         else if matchesWord s ''info'' then LevelInfo
         else if matchesWord s ''warn'' \<or> matchesWord s ''warning'' then LevelWarn
         else if matchesWord s ''error'' then LevelError
         else LevelInfo)" if a: "list_all isASCII s"
  proof -
    have t: "strings_ToLower U (strings_TrimSpace U s) = map toLowerASCII (trimASCII s)"
      using a isASCII_trim [OF a]
      by (simp add: strings_ToLower_def strings_TrimSpace_def trimASCII_def)
    have w: "matchesWord s ''debug'' = (map toLowerASCII (trimASCII s) = ''debug'')"
      "matchesWord s ''info'' = (map toLowerASCII (trimASCII s) = ''info'')"
      "matchesWord s ''warn'' = (map toLowerASCII (trimASCII s) = ''warn'')"
      "matchesWord s ''warning'' = (map toLowerASCII (trimASCII s) = ''warning'')"
      "matchesWord s ''error'' = (map toLowerASCII (trimASCII s) = ''error'')"
      by (rule matchesWord_iff; simp add: lowerLetter_def less_eq_char_def)+
    show ?thesis
      unfolding ParseLevel_def t w by (simp add: Let_def)
  qed
  show ?thesis
    using gen emp ascii by blast
qed

theorem ParseLevel_spec_witness:
  "list_all isASCII ''  DeBuG  '' \<and> matchesWord ''  DeBuG  '' ''debug'' \<and>
   ParseLevel noUnicode ''  DeBuG  '' = LevelDebug"
proof -
  have a: "list_all isASCII ''  DeBuG  ''"
    by (simp add: isASCII_def)
  have m: "matchesWord ''  DeBuG  '' ''debug''"
    unfolding matchesWord_def
    by (rule exI [of _ "''  ''"], rule exI [of _ "''DeBuG''"], rule exI [of _ "''  ''"])
       (simp add: asciiSpace_def sameLetter_def)
  show ?thesis
    using ParseLevel_spec [of noUnicode "''  DeBuG  ''"] a m by simp
qed

subsection \<open>C2: the two decisions of a configuration\<close>

text \<open>
  Claim C2. \<^verbatim>\<open>shouldUseColor\<close> returns the override whenever one is set, also under
  Production. With no override it is false under Production; otherwise it is true exactly
  when the sink is the standard output or the standard error stream and that stream is a
  terminal, and false for every other sink. \<^verbatim>\<open>shouldUseJSON\<close> is true exactly under
  Production.
\<close>

theorem shouldUseColor_spec:
  "(useColor c = Some b \<longrightarrow> shouldUseColor T c = b) \<and>
   (useColor c = None \<and> env c = EnvProduction \<longrightarrow> \<not> shouldUseColor T c) \<and>
   (useColor c = None \<and> env c \<noteq> EnvProduction \<longrightarrow>
      shouldUseColor T c = ((cfg_output c = Stdout \<and> isStdoutTerminal T)
                            \<or> (cfg_output c = Stderr \<and> isStderrTerminal T))) \<and>
   (useColor c = None \<and> cfg_output c \<noteq> Stdout \<and> cfg_output c \<noteq> Stderr \<longrightarrow> \<not> shouldUseColor T c) \<and>
   shouldUseJSON c = (env c = EnvProduction)"
  by (auto simp add: shouldUseColor_def shouldUseJSON_def split: option.splits)

theorem shouldUseColor_spec_witness:
  "shouldUseColor noTerminal (WithColor True (WithEnv EnvProduction bufferConfig)) = True \<and>
   shouldUseColor onTerminal (WithColor False (WithOutput Stdout bufferConfig)) = False \<and>
   \<not> shouldUseColor onTerminal (WithOutput Stdout (WithEnv EnvProduction bufferConfig)) \<and>
   shouldUseColor onTerminal (WithOutput Stdout bufferConfig) \<and>
   shouldUseColor onTerminal (WithOutput Stderr bufferConfig) \<and>
   \<not> shouldUseColor noTerminal (WithOutput Stdout bufferConfig) \<and>
   \<not> shouldUseColor onTerminal bufferConfig \<and>
   shouldUseJSON (WithOutput Stdout (WithEnv EnvProduction bufferConfig)) \<and>
   \<not> shouldUseJSON bufferConfig"
  using shouldUseColor_spec [of "WithColor True (WithEnv EnvProduction bufferConfig)" True noTerminal]
    shouldUseColor_spec [of "WithColor False (WithOutput Stdout bufferConfig)" False onTerminal]
    shouldUseColor_spec [of "WithOutput Stdout (WithEnv EnvProduction bufferConfig)" _ onTerminal]
    shouldUseColor_spec [of "WithOutput Stdout bufferConfig" _ onTerminal]
    shouldUseColor_spec [of "WithOutput Stderr bufferConfig" _ onTerminal]
    shouldUseColor_spec [of "WithOutput Stdout bufferConfig" _ noTerminal]
    shouldUseColor_spec [of bufferConfig _ onTerminal]
    shouldUseColor_spec [of bufferConfig _ noTerminal]
  by (simp add: bufferConfig_eq WithColor_def WithEnv_def WithOutput_def noTerminal_def onTerminal_def
      EnvDevelopment_def EnvProduction_def)

subsection \<open>C1: the chain that createHandler builds\<close>

text \<open>
  Claim C1 says that the colorized renderer is returned, unwrapped, whenever
  \<^verbatim>\<open>shouldUseColor\<close> is true. Under Production with the color override set,
  \<^verbatim>\<open>shouldUseColor\<close> is true and \<^verbatim>\<open>createHandler\<close> returns the JSON handler: the JSON
  decision is taken first.
\<close>

theorem createHandler_color_counterexample:
  "shouldUseColor noTerminal (WithColor True (WithEnv EnvProduction bufferConfig)) \<and>
   fst (createHandler noTerminal (WithColor True (WithEnv EnvProduction bufferConfig)) emptyHeap)
     = JSONHandler (OtherWriter 0) LevelDebug False"
  by (simp add: createHandler_def shouldUseJSON_def shouldUseColor_def bufferConfig_eq
      WithColor_def WithEnv_def)

text \<open>
  Claim C1, amended. When \<^verbatim>\<open>shouldUseJSON\<close> is false and \<^verbatim>\<open>shouldUseColor\<close> is true,
  \<^verbatim>\<open>createHandler\<close> returns the colorized renderer, unwrapped, holding the writer, the
  level, the call-site flag and the key list of the configuration. In the JSON branch and
  in the plain-text branch the leaf is wrapped in a context handler holding the key list
  if and only if the key list is not empty; otherwise the leaf is returned as it is.
\<close>

theorem createHandler_chain:
  "(shouldUseJSON cfg \<longrightarrow>
      createHandler T cfg hp =
        (if contextKeys cfg \<noteq> []
         then (ContextHandler (JSONHandler (cfg_output cfg) (level cfg) (addSource cfg)) (contextKeys cfg), hp)
         else (JSONHandler (cfg_output cfg) (level cfg) (addSource cfg), hp))) \<and>
   (\<not> shouldUseJSON cfg \<and> shouldUseColor T cfg \<longrightarrow>
      (\<exists>h. fst (createHandler T cfg hp) = ColorHandler h \<and> ch_w h = cfg_output cfg \<and>
         ch_level h = level cfg \<and> ch_addSource h = addSource cfg \<and>
         ch_contextKeys h = contextKeys cfg)) \<and>
   (\<not> shouldUseJSON cfg \<and> \<not> shouldUseColor T cfg \<longrightarrow>
      createHandler T cfg hp =
        (if contextKeys cfg \<noteq> []
         then (ContextHandler (TextHandler (cfg_output cfg) (level cfg) (addSource cfg)) (contextKeys cfg), hp)
         else (TextHandler (cfg_output cfg) (level cfg) (addSource cfg), hp)))"
  by (simp add: createHandler_def newContextHandler_def newColorHandler_def Let_def)

theorem createHandler_chain_witness:
  "createHandler noTerminal (WithContextKeys [''request_id''] (WithEnv EnvProduction bufferConfig)) emptyHeap
     = (ContextHandler (JSONHandler (OtherWriter 0) LevelDebug False) [''request_id''], emptyHeap) \<and>
   createHandler noTerminal (WithEnv EnvProduction bufferConfig) emptyHeap
     = (JSONHandler (OtherWriter 0) LevelDebug False, emptyHeap) \<and>
   (\<exists>h. fst (createHandler noTerminal (WithContextKeys [''request_id''] (WithColor True bufferConfig)) emptyHeap)
          = ColorHandler h \<and> ch_w h = OtherWriter 0 \<and> ch_level h = LevelDebug \<and>
          \<not> ch_addSource h \<and> ch_contextKeys h = [''request_id'']) \<and>
   createHandler noTerminal (WithContextKeys [''request_id''] bufferConfig) emptyHeap
     = (ContextHandler (TextHandler (OtherWriter 0) LevelDebug False) [''request_id''], emptyHeap) \<and>
   createHandler noTerminal bufferConfig emptyHeap
     = (TextHandler (OtherWriter 0) LevelDebug False, emptyHeap)"
  using createHandler_chain [of "WithContextKeys [''request_id''] (WithEnv EnvProduction bufferConfig)" noTerminal emptyHeap]
    createHandler_chain [of "WithEnv EnvProduction bufferConfig" noTerminal emptyHeap]
    createHandler_chain [of "WithContextKeys [''request_id''] (WithColor True bufferConfig)" noTerminal emptyHeap]
    createHandler_chain [of "WithContextKeys [''request_id''] bufferConfig" noTerminal emptyHeap]
    createHandler_chain [of bufferConfig noTerminal emptyHeap]
  by (simp add: bufferConfig_eq WithColor_def WithEnv_def WithContextKeys_def noTerminal_def
      shouldUseJSON_def shouldUseColor_def EnvDevelopment_def EnvProduction_def)

subsection \<open>C4: flattening of attribute groups\<close>

text \<open>
  Claim C4. On a writer that accepts every write, \<^verbatim>\<open>writeAttr\<close> writes one text per
  flattened attribute: a space, the key qualified by the dot-joined path of group names,
  an equals sign and the value; a group contributes its members, depth first, under the
  path extended by its own name, to any depth. A whole line consists of the time, the
  severity field, the message, the ambient attributes, then the flattened accumulated
  and record attributes, and a newline. A leaf nested in groups \<open>names\<close> is printed under
  the path of all of them; the group \<^verbatim>\<open>{request: {method: "GET"}}\<close> is printed as the
  key \<^verbatim>\<open>request.method\<close> with the value \<^verbatim>\<open>GET\<close>.
\<close>

theorem writeAttr_flattens:
  assumes "reliable s"
  shows "written (writeAttr a groups s) = written s @ map renderAttr (flatten groups a) \<and>
         written (snd (colorHandler_Handle h ctx r hp s)) = written s @ lineTexts h ctx r hp \<and>
         (\<not> isGroup (Value leaf) \<and> leaf \<noteq> zeroAttr \<longrightarrow>
            written (writeAttr (nest names leaf) groups s)
              = written s @ [renderAttr (joinDots (groups @ names @ [Key leaf]), Value leaf)])"
  using assms by (simp add: writeAttr_emit colorHandler_Handle_emit written_emit flatten_nest)

theorem writeAttr_flattens_witness:
  "reliable workingSink \<and>
   written (writeAttr (Attr ''request'' (GroupValue [Attr ''method'' (StringValue ''GET'')])) [] workingSink)
     = ['' '' @ colorCyan @ ''request.method'' @ colorReset @ ''=GET''] \<and>
   written (snd (colorHandler_Handle bufferHandler None requestRecord emptyHeap workingSink))
     = [colorGray @ ''09:05:42'' @ colorReset @ '' '',
        colorYellow @ colorBold @ ''WARN '' @ colorReset @ '' '',
        colorBold @ ''served'' @ colorReset,
        '' '' @ colorCyan @ ''request.method'' @ colorReset @ ''=GET'',
        [CHR 0x0A]] \<and>
   \<not> isGroup (StringValue ''GET'') \<and> Attr ''method'' (StringValue ''GET'') \<noteq> zeroAttr \<and>
   written (writeAttr (nest [''request''] (Attr ''method'' (StringValue ''GET''))) [] workingSink)
     = ['' '' @ colorCyan @ ''request.method'' @ colorReset @ ''=GET'']"
  using writeAttr_flattens [OF reliable_workingSink,
      of "Attr ''request'' (GroupValue [Attr ''method'' (StringValue ''GET'')])" "[]"
         bufferHandler None requestRecord emptyHeap "Attr ''method'' (StringValue ''GET'')" "[''request'']"]
    reliable_workingSink
  by (simp add: request_line workingSink_def renderAttr_def zeroAttr_def nest_def)

subsection \<open>C8: the severity field\<close>

text \<open>
  Claim C8 says that the label is left-padded to width 5. The verb is \<^verbatim>\<open>%-5s\<close>: the
  label comes first and the spaces follow it. For a record at level Warn the field holds
  \<^verbatim>\<open>WARN\<close> followed by a space, not a space followed by \<^verbatim>\<open>WARN\<close>.
\<close>

theorem level_label_counterexample:
  "written (snd (colorHandler_Handle bufferHandler None requestRecord emptyHeap workingSink)) ! 1
     \<noteq> levelColor LevelWarn @ colorBold @ leftPad 5 (levelString LevelWarn) @ colorReset @ '' ''"
proof -
  have "written (snd (colorHandler_Handle bufferHandler None requestRecord emptyHeap workingSink))
        = written workingSink @ lineTexts bufferHandler None requestRecord emptyHeap"
    by (simp add: colorHandler_Handle_emit written_emit reliable_workingSink)
  then show ?thesis
    by (simp add: request_line workingSink_def levelColor_def levelString_def leftPad_def
        LevelWarn_def LevelError_def)
qed

text \<open>
  Claim C8, amended. For every level, the second text of a line is the color, the bold
  code, the label left-justified in a field of width 5 (spaces after the label), the
  reset code and a space, where color and label follow the chain of comparisons from the
  highest level down: red and ERROR from Error up, else yellow and WARN from Warn up, else
  green and INFO from Info up, else blue and DEBUG. A level between two named levels
  gets the label of the nearest named level at or below it.
\<close>

theorem level_label:
  assumes "reliable s"
  shows "written (snd (colorHandler_Handle h ctx r hp s)) ! Suc (length (written s)) =
     (if LevelError \<le> r_Level r then colorRed @ colorBold @ ''ERROR'' @ colorReset @ '' ''
      else if LevelWarn \<le> r_Level r then colorYellow @ colorBold @ ''WARN '' @ colorReset @ '' ''
      else if LevelInfo \<le> r_Level r then colorGreen @ colorBold @ ''INFO '' @ colorReset @ '' ''
      else colorBlue @ colorBold @ ''DEBUG'' @ colorReset @ '' '')"
  using assms
  by (simp add: colorHandler_Handle_emit written_emit lineTexts_def nth_append levelField_def
      LevelError_def LevelWarn_def LevelInfo_def)

theorem level_label_witness:
  "reliable workingSink \<and>
   written (snd (colorHandler_Handle bufferHandler None requestRecord emptyHeap workingSink)) ! 1
     = colorYellow @ colorBold @ ''WARN '' @ colorReset @ '' ''"
  using level_label [OF reliable_workingSink, of bufferHandler None requestRecord emptyHeap]
    reliable_workingSink
  by (simp add: workingSink_def requestRecord_def LevelWarn_def LevelError_def)

subsection \<open>C6: write failures\<close>

text \<open>
  Claim C6 says that the colorized renderer returns an error whenever a write to its
  writer fails. On a writer that fails every write, \<^verbatim>\<open>Handle\<close> returns nil and nothing
  has been written.
\<close>

theorem Handle_error_counterexample:
  "fst (Write (colorGray @ ''09:05:42'' @ colorReset @ '' '') brokenSink) = Some WriteError \<and>
   written (snd (colorHandler_Handle bufferHandler None requestRecord emptyHeap brokenSink)) = [] \<and>
   fst (colorHandler_Handle bufferHandler None requestRecord emptyHeap brokenSink) = None"
proof -
  have "written (emit ps brokenSink) = []" for ps
    using written_emit_failing [of brokenSink ps] by (simp add: brokenSink_def)
  then show ?thesis
    by (simp add: colorHandler_Handle_emit) (simp add: Write_def brokenSink_def)
qed

text \<open>
  Claim C6, amended. \<^verbatim>\<open>colorHandler.Handle\<close> returns nil for every record, also when
  writes to its writer fail: each text of the line is handed to the writer exactly once,
  whether or not earlier writes failed, and the result of no write is looked at. The
  context handler adds no error handling of its own: its result is the result of the one
  call of the handler it wraps.
\<close>

theorem Handle_discards_write_errors:
  "fst (colorHandler_Handle h ctx r hp s) = None \<and>
   attempts (snd (colorHandler_Handle h ctx r hp s)) = attempts s + length (lineTexts h ctx r hp) \<and>
   failing (snd (colorHandler_Handle h ctx r hp s)) = failing s \<and>
   (\<exists>r' hp'. contextHandler_Handle inner keys ctx r hp = inner ctx r' hp')"
proof -
  have "\<exists>r' hp'. contextHandler_Handle inner keys ctx r hp = inner ctx r' hp'"
    unfolding contextHandler_Handle_def Let_def
    by (cases ctx; cases "Record_AddAttrs (Record_Clone r) (collectAttrs (the ctx) keys []) hp") auto
  then show ?thesis
    by (simp add: colorHandler_Handle_emit attempts_emit failing_emit)
qed

subsection \<open>C3: the context handler\<close>

text \<open>
  Claim C3. The context handler hands to the handler it wraps a record whose attributes
  are those of the record it received followed by one string attribute for each
  configured key whose value in the context is a string that is not empty, in the order
  of the key list. When there is at least one such attribute the record handed on is the
  clone with the attributes added, and no array allocated before the call is written:
  the record received still reads the same attributes. When there is none, in
  particular when the context is nil or the key list is empty, the record received is
  handed on as it is and the heap is unchanged.
\<close>

theorem contextHandler_injects:
  assumes "validRecord hp r"
  shows "\<exists>r' hp'. contextHandler_Handle inner keys ctx r hp = inner ctx r' hp' \<and>
     Record_Attrs hp' r' = Record_Attrs hp r @ ambientAttrs ctx keys \<and>
     r_Time r' = r_Time r \<and> r_Message r' = r_Message r \<and> r_Level r' = r_Level r \<and>
     (\<forall>a < lim hp. attrArrays hp' a = attrArrays hp a) \<and> stringArrays hp' = stringArrays hp \<and>
     Record_Attrs hp' r = Record_Attrs hp r \<and>
     (ambientAttrs ctx keys = [] \<longrightarrow> r' = r \<and> hp' = hp) \<and>
     (ambientAttrs ctx keys \<noteq> [] \<longrightarrow>
        (r', hp') = Record_AddAttrs (Record_Clone r) (ambientAttrs ctx keys) hp) \<and>
     (ctx = None \<or> keys = [] \<longrightarrow> r' = r \<and> hp' = hp)"
proof (cases "ambientAttrs ctx keys = []")
  case True
  have "contextHandler_Handle inner keys ctx r hp = inner ctx r hp"
    using True by (cases ctx) (simp_all add: contextHandler_Handle_def collectAttrs_ambient)
  then show ?thesis
    using True by auto
next
  case False
  then obtain c where c: "ctx = Some c"
    by (cases ctx) (auto simp add: ambientAttrs_def)
  have k: "keys \<noteq> []"
    using False by (auto simp add: ambientAttrs_def c)
  obtain r' hp' where a: "Record_AddAttrs (Record_Clone r) (ambientAttrs ctx keys) hp = (r', hp')"
    and at: "Record_Attrs hp' r' = Record_Attrs hp r @ ambientAttrs ctx keys"
    and same: "r_Time r' = r_Time r" "r_Message r' = r_Message r" "r_Level r' = r_Level r"
    and frame: "\<forall>a < lim hp. attrArrays hp' a = attrArrays hp a" "stringArrays hp' = stringArrays hp"
    using AddAttrs_Clone [OF assms, of "ambientAttrs ctx keys"] ambientAttrs_no_empty_group
    by blast
  have "contextHandler_Handle inner keys ctx r hp = inner ctx r' hp'"
    using False a c k by (simp add: contextHandler_Handle_def collectAttrs_ambient)
  moreover have "Record_Attrs hp' r = Record_Attrs hp r"
    using frame(1) assms by (simp add: Record_Attrs_def readAttrs_def validRecord_def validSlice_def)
  ultimately show ?thesis
    using False at same frame a c k by auto
qed

theorem contextHandler_injects_witness:
  "validRecord emptyHeap fullRecord \<and>
   contextHandler_Handle delivered [''request_id'', ''span_id'', ''trace_id''] (Some requestContext)
       fullRecord emptyHeap
     = [slog_String ''a'' ''1'', slog_String ''b'' ''2'', slog_String ''c'' ''3'',
        slog_String ''d'' ''4'', slog_String ''e'' ''5'',
        Attr ''request_id'' (StringValue ''req-123''), Attr ''trace_id'' (StringValue ''trace-456'')] \<and>
   contextHandler_Handle delivered [''request_id'', ''span_id'', ''trace_id''] None
       fullRecord emptyHeap
     = [slog_String ''a'' ''1'', slog_String ''b'' ''2'', slog_String ''c'' ''3'',
        slog_String ''d'' ''4'', slog_String ''e'' ''5'']"
proof -
  have f: "Record_Attrs emptyHeap fullRecord
     = [slog_String ''a'' ''1'', slog_String ''b'' ''2'', slog_String ''c'' ''3'',
        slog_String ''d'' ''4'', slog_String ''e'' ''5'']"
    by (simp add: Record_Attrs_def fullRecord_def readAttrs_def nilSlice_def)
  have A: "contextHandler_Handle delivered [''request_id'', ''span_id'', ''trace_id''] (Some requestContext)
       fullRecord emptyHeap = Record_Attrs emptyHeap fullRecord
         @ ambientAttrs (Some requestContext) [''request_id'', ''span_id'', ''trace_id'']"
    using contextHandler_injects [OF validRecord_fullRecord, of delivered
        "[''request_id'', ''span_id'', ''trace_id'']" "Some requestContext"]
    by (auto simp add: delivered_def)
  have B: "contextHandler_Handle delivered [''request_id'', ''span_id'', ''trace_id''] None
       fullRecord emptyHeap = Record_Attrs emptyHeap fullRecord"
    using contextHandler_injects [OF validRecord_fullRecord, of delivered
        "[''request_id'', ''span_id'', ''trace_id'']" None]
    by (auto simp add: delivered_def)
  show ?thesis
    using validRecord_fullRecord A B by (simp add: f ambient_request)
qed

subsection \<open>C5: the entries shared by a test logger and its children\<close>

text \<open>
  Claim C5. \<^verbatim>\<open>With\<close> and \<^verbatim>\<open>WithGroup\<close> return a logger that refers to the same sequence of
  entries, and leave the sequence as it is. For any two loggers \<open>c\<close> and \<open>p\<close> that refer
  to the same sequence: an entry logged through \<open>c\<close> is appended to the sequence that \<open>p\<close>
  reads, with the attributes accumulated in \<open>c\<close>; \<^verbatim>\<open>HasEntryWithAttr\<close> on \<open>p\<close> finds it
  under every attribute it carries; and \<^verbatim>\<open>Clear\<close> through either empties the sequence
  for both, so that \<^verbatim>\<open>Len\<close> is 0.
\<close>

theorem shared_entries:
  "tl_entries (fst (TestLogger_With t wargs st)) = tl_entries t \<and>
   tl_entries (fst (TestLogger_WithGroup t name st)) = tl_entries t \<and>
   entriesAt (snd (TestLogger_With t wargs st)) = entriesAt st \<and>
   entriesAt (snd (TestLogger_WithGroup t name st)) = entriesAt st \<and>
   mapsAt (snd (TestLogger_With t wargs st)) (tl_attrs (fst (TestLogger_With t wargs st)))
     = withArgs wargs (mapsAt st (tl_attrs t)) \<and>
   (tl_entries c = tl_entries p \<longrightarrow>
      TestLogger_Entries p (TestLogger_log c lvl msg a st)
        = TestLogger_Entries p st
          @ [\<lparr>e_Level = lvl, e_Message = msg,
              e_Attrs = logArgs (tl_group c) a (mapsAt st (tl_attrs c))\<rparr>] \<and>
      (strings_Contains msg sub \<and> logArgs (tl_group c) a (mapsAt st (tl_attrs c)) key = Some v \<longrightarrow>
         TestLogger_HasEntryWithAttr p lvl sub key v (TestLogger_log c lvl msg a st)) \<and>
      TestLogger_Entries p (TestLogger_Clear c st) = [] \<and>
      TestLogger_Len p (TestLogger_Clear c st) = 0 \<and>
      TestLogger_Len c (TestLogger_Clear p st) = 0 \<and>
      TestLogger_Len c (TestLogger_Clear c st) = 0)"
  by (simp add: TestLogger_With_def TestLogger_WithGroup_def TestLogger_log_def
      TestLogger_Entries_def TestLogger_HasEntryWithAttr_def TestLogger_Clear_def
      TestLogger_Len_def Let_def)

theorem shared_entries_witness:
  "tl_entries (fst (TestLogger_With testLogger [AnyString ''service'', AnyString ''api''] testStore))
     = tl_entries testLogger \<and>
   strings_Contains ''child message'' ''child'' \<and>
   TestLogger_HasEntryWithAttr testLogger LevelInfo ''child'' ''service'' (AnyString ''api'')
     (TestLogger_log (fst (TestLogger_With testLogger [AnyString ''service'', AnyString ''api''] testStore))
        LevelInfo ''child message'' []
        (snd (TestLogger_With testLogger [AnyString ''service'', AnyString ''api''] testStore))) \<and>
   TestLogger_Len testLogger
     (TestLogger_Clear (fst (TestLogger_With testLogger [AnyString ''service'', AnyString ''api''] testStore))
        (TestLogger_log (fst (TestLogger_With testLogger [AnyString ''service'', AnyString ''api''] testStore))
           LevelInfo ''child message'' []
           (snd (TestLogger_With testLogger [AnyString ''service'', AnyString ''api''] testStore)))) = 0"
proof -
  let ?c = "fst (TestLogger_With testLogger [AnyString ''service'', AnyString ''api''] testStore)"
  let ?st = "snd (TestLogger_With testLogger [AnyString ''service'', AnyString ''api''] testStore)"
  let ?st' = "TestLogger_log ?c LevelInfo ''child message'' [] ?st"
  note A = shared_entries [where t = testLogger and wargs = "[AnyString ''service'', AnyString ''api'']"
      and st = testStore]
  note B = shared_entries [where c = ?c and p = testLogger and st = ?st and lvl = LevelInfo
      and msg = "''child message''" and a = "[]" and sub = "''child''" and key = "''service''"
      and v = "AnyString ''api''"]
  note C = shared_entries [where c = ?c and p = testLogger and st = ?st']
  have sub: "strings_Contains ''child message'' ''child''"
    by (simp add: strings_Contains_def)
  have sh: "tl_entries ?c = tl_entries testLogger"
    using A by blast
  have "mapsAt ?st (tl_attrs ?c) = withArgs [AnyString ''service'', AnyString ''api''] (mapsAt testStore (tl_attrs testLogger))"
    using A by blast
  then have at: "logArgs (tl_group ?c) [] (mapsAt ?st (tl_attrs ?c)) ''service'' = Some (AnyString ''api'')"
    by simp
  have H: "TestLogger_HasEntryWithAttr testLogger LevelInfo ''child'' ''service'' (AnyString ''api'') ?st'"
    using B sh sub at by blast
  have L: "TestLogger_Len testLogger (TestLogger_Clear ?c ?st') = 0"
    using C sh by blast
  show ?thesis
    by (rule conjI [OF sh conjI [OF sub conjI [OF H L]]])
qed

subsection \<open>C7: deriving does not change the receiver\<close>

text \<open>
  Claim C7. \<^verbatim>\<open>With\<close> and \<^verbatim>\<open>WithGroup\<close> of a test logger, and \<^verbatim>\<open>WithAttrs\<close> and
  \<^verbatim>\<open>WithGroup\<close> of the colorized renderer, return a new instance: it shares the entries
  and the mutex (the writer and the mutex), its attributes are those of the receiver
  extended by the new ones (its group path is extended by the name), and they live in a
  fresh map (a fresh array). Nothing the receiver refers to is written: its map, its
  arrays and the entries are as before, and logging through the receiver afterwards has
  the same effect as logging through it before. The context handler derives by deriving
  from the handler it wraps and keeps its key list.
\<close>

theorem derive_leaves_receiver:
  assumes "tl_attrs t < nextRef st" "validHandler hp h" "sl_ptr (r_back r) < lim hp"
  shows
   "(case TestLogger_With t args st of (c, st1) \<Rightarrow>
       tl_attrs c \<noteq> tl_attrs t \<and> tl_entries c = tl_entries t \<and> tl_mu c = tl_mu t \<and>
       tl_group c = tl_group t \<and>
       mapsAt st1 (tl_attrs c) = withArgs args (mapsAt st (tl_attrs t)) \<and>
       mapsAt st1 (tl_attrs t) = mapsAt st (tl_attrs t) \<and> entriesAt st1 = entriesAt st \<and>
       entriesAt (TestLogger_log t lvl msg a st1) = entriesAt (TestLogger_log t lvl msg a st)) \<and>
    (case TestLogger_WithGroup t name st of (c, st1) \<Rightarrow>
       tl_attrs c \<noteq> tl_attrs t \<and> tl_entries c = tl_entries t \<and> tl_mu c = tl_mu t \<and>
       tl_group c = (if tl_group t = [] then name else tl_group t @ ''.'' @ name) \<and>
       mapsAt st1 (tl_attrs c) = mapsAt st (tl_attrs t) \<and>
       mapsAt st1 (tl_attrs t) = mapsAt st (tl_attrs t) \<and> entriesAt st1 = entriesAt st \<and>
       entriesAt (TestLogger_log t lvl msg a st1) = entriesAt (TestLogger_log t lvl msg a st)) \<and>
    (case colorHandler_WithAttrs h as hp of (h', hp') \<Rightarrow>
       ch_w h' = ch_w h \<and> ch_mu h' = ch_mu h \<and> ch_level h' = ch_level h \<and>
       ch_contextKeys h' = ch_contextKeys h \<and>
       readAttrs hp' (ch_attrs h') = readAttrs hp (ch_attrs h) @ as \<and>
       readStrings hp' (ch_groups h') = readStrings hp (ch_groups h) \<and>
       readAttrs hp' (ch_attrs h) = readAttrs hp (ch_attrs h) \<and>
       readStrings hp' (ch_groups h) = readStrings hp (ch_groups h) \<and>
       (\<forall>a < lim hp. attrArrays hp' a = attrArrays hp a \<and> stringArrays hp' a = stringArrays hp a) \<and>
       colorHandler_Handle h ctx r hp' s = colorHandler_Handle h ctx r hp s) \<and>
    (case colorHandler_WithGroup h name hp of (h', hp') \<Rightarrow>
       ch_w h' = ch_w h \<and> ch_mu h' = ch_mu h \<and> ch_level h' = ch_level h \<and>
       ch_contextKeys h' = ch_contextKeys h \<and>
       readAttrs hp' (ch_attrs h') = readAttrs hp (ch_attrs h) \<and>
       readStrings hp' (ch_groups h') = readStrings hp (ch_groups h) @ [name] \<and>
       readAttrs hp' (ch_attrs h) = readAttrs hp (ch_attrs h) \<and>
       readStrings hp' (ch_groups h) = readStrings hp (ch_groups h) \<and>
       (\<forall>a < lim hp. attrArrays hp' a = attrArrays hp a \<and> stringArrays hp' a = stringArrays hp a) \<and>
       colorHandler_Handle h ctx r hp' s = colorHandler_Handle h ctx r hp s) \<and>
    (case contextHandler_WithAttrs innerWithAttrs (inner, keys) as x of ((inner', keys'), x') \<Rightarrow>
       keys' = keys \<and> (inner', x') = innerWithAttrs inner as x) \<and>
    (case contextHandler_WithGroup innerWithGroup (inner, keys) name x of ((inner', keys'), x') \<Rightarrow>
       keys' = keys \<and> (inner', x') = innerWithGroup inner name x)"
proof -
  have A: "case TestLogger_With t args st of (c, st1) \<Rightarrow>
       tl_attrs c \<noteq> tl_attrs t \<and> tl_entries c = tl_entries t \<and> tl_mu c = tl_mu t \<and>
       tl_group c = tl_group t \<and>
       mapsAt st1 (tl_attrs c) = withArgs args (mapsAt st (tl_attrs t)) \<and>
       mapsAt st1 (tl_attrs t) = mapsAt st (tl_attrs t) \<and> entriesAt st1 = entriesAt st \<and>
       entriesAt (TestLogger_log t lvl msg a st1) = entriesAt (TestLogger_log t lvl msg a st)"
    using assms(1) by (simp add: TestLogger_With_def TestLogger_log_def Let_def)
  have B: "case TestLogger_WithGroup t name st of (c, st1) \<Rightarrow>
       tl_attrs c \<noteq> tl_attrs t \<and> tl_entries c = tl_entries t \<and> tl_mu c = tl_mu t \<and>
       tl_group c = (if tl_group t = [] then name else tl_group t @ ''.'' @ name) \<and>
       mapsAt st1 (tl_attrs c) = mapsAt st (tl_attrs t) \<and>
       mapsAt st1 (tl_attrs t) = mapsAt st (tl_attrs t) \<and> entriesAt st1 = entriesAt st \<and>
       entriesAt (TestLogger_log t lvl msg a st1) = entriesAt (TestLogger_log t lvl msg a st)"
    using assms(1) by (simp add: TestLogger_WithGroup_def TestLogger_log_def Let_def)
  let ?hpA = "snd (colorHandler_WithAttrs h as hp)"
  have fA: "\<forall>a < lim hp. attrArrays ?hpA a = attrArrays hp a \<and> stringArrays ?hpA a = stringArrays hp a"
    by (simp add: colorHandler_WithAttrs_def makeAttrs_def)
  have C: "case colorHandler_WithAttrs h as hp of (h', hp') \<Rightarrow>
       ch_w h' = ch_w h \<and> ch_mu h' = ch_mu h \<and> ch_level h' = ch_level h \<and>
       ch_contextKeys h' = ch_contextKeys h \<and>
       readAttrs hp' (ch_attrs h') = readAttrs hp (ch_attrs h) @ as \<and>
       readStrings hp' (ch_groups h') = readStrings hp (ch_groups h) \<and>
       readAttrs hp' (ch_attrs h) = readAttrs hp (ch_attrs h) \<and>
       readStrings hp' (ch_groups h) = readStrings hp (ch_groups h) \<and>
       (\<forall>a < lim hp. attrArrays hp' a = attrArrays hp a \<and> stringArrays hp' a = stringArrays hp a) \<and>
       colorHandler_Handle h ctx r hp' s = colorHandler_Handle h ctx r hp s"
    using assms(2) lineTexts_frame [OF fA assms(2,3), of ctx] fA
    by (simp add: colorHandler_WithAttrs_def case_prod_beta readAttrs_makeAttrs read_after_makeAttrs
        validHandler_def colorHandler_Handle_emit)
  let ?hpG = "snd (colorHandler_WithGroup h name hp)"
  have fG: "\<forall>a < lim hp. attrArrays ?hpG a = attrArrays hp a \<and> stringArrays ?hpG a = stringArrays hp a"
    by (simp add: colorHandler_WithGroup_def makeStrings_def)
  have D: "case colorHandler_WithGroup h name hp of (h', hp') \<Rightarrow>
       ch_w h' = ch_w h \<and> ch_mu h' = ch_mu h \<and> ch_level h' = ch_level h \<and>
       ch_contextKeys h' = ch_contextKeys h \<and>
       readAttrs hp' (ch_attrs h') = readAttrs hp (ch_attrs h) \<and>
       readStrings hp' (ch_groups h') = readStrings hp (ch_groups h) @ [name] \<and>
       readAttrs hp' (ch_attrs h) = readAttrs hp (ch_attrs h) \<and>
       readStrings hp' (ch_groups h) = readStrings hp (ch_groups h) \<and>
       (\<forall>a < lim hp. attrArrays hp' a = attrArrays hp a \<and> stringArrays hp' a = stringArrays hp a) \<and>
       colorHandler_Handle h ctx r hp' s = colorHandler_Handle h ctx r hp s"
    using assms(2) lineTexts_frame [OF fG assms(2,3), of ctx] fG
    by (simp add: colorHandler_WithGroup_def case_prod_beta readStrings_makeStrings read_after_makeStrings
        validHandler_def colorHandler_Handle_emit)
  have E: "case contextHandler_WithAttrs innerWithAttrs (inner, keys) as x of ((inner', keys'), x') \<Rightarrow>
       keys' = keys \<and> (inner', x') = innerWithAttrs inner as x"
    by (simp add: contextHandler_WithAttrs_def split: prod.splits)
  have F: "case contextHandler_WithGroup innerWithGroup (inner, keys) name x of ((inner', keys'), x') \<Rightarrow>
       keys' = keys \<and> (inner', x') = innerWithGroup inner name x"
    by (simp add: contextHandler_WithGroup_def split: prod.splits)
  show ?thesis
    by (rule conjI [OF A conjI [OF B conjI [OF C conjI [OF D conjI [OF E F]]]]])
qed

theorem derive_leaves_receiver_witness:
  "tl_attrs testLogger < nextRef testStore \<and> validHandler emptyHeap bufferHandler \<and>
   sl_ptr (r_back requestRecord) < lim emptyHeap \<and>
   TestLogger_Entries testLogger
     (TestLogger_log testLogger LevelInfo ''parent'' []
        (snd (TestLogger_With testLogger [AnyString ''service'', AnyString ''api''] testStore)))
     = [\<lparr>e_Level = LevelInfo, e_Message = ''parent'', e_Attrs = Map.empty\<rparr>] \<and>
   TestLogger_Entries testLogger
     (TestLogger_log testLogger LevelInfo ''parent'' [AnyString ''k'', AnyInt 1]
        (snd (TestLogger_WithGroup testLogger ''request'' testStore)))
     = [\<lparr>e_Level = LevelInfo, e_Message = ''parent'', e_Attrs = [''k'' \<mapsto> AnyInt 1]\<rparr>] \<and>
   colorHandler_Handle bufferHandler None requestRecord
       (snd (colorHandler_WithAttrs bufferHandler [slog_String ''service'' ''api''] emptyHeap)) workingSink
     = colorHandler_Handle bufferHandler None requestRecord emptyHeap workingSink \<and>
   colorHandler_Handle bufferHandler None requestRecord
       (snd (colorHandler_WithGroup bufferHandler ''http'' emptyHeap)) workingSink
     = colorHandler_Handle bufferHandler None requestRecord emptyHeap workingSink"
proof -
  have a1: "tl_attrs testLogger < nextRef testStore"
    by (simp add: testLogger_eq testStore_eq)
  have a2: "validHandler emptyHeap bufferHandler"
    by (simp add: validHandler_def bufferHandler_eq emptyHeap_def nilSlice_def)
  have a3: "sl_ptr (r_back requestRecord) < lim emptyHeap"
    by (simp add: requestRecord_def emptyHeap_def nilSlice_def)
  note th = derive_leaves_receiver [OF a1 a2 a3,
      where innerWithAttrs = colorHandler_WithAttrs and innerWithGroup = colorHandler_WithGroup
        and inner = bufferHandler and keys = "[]" and x = emptyHeap,
      unfolded case_prod_beta]
  have A: "entriesAt (TestLogger_log testLogger LevelInfo ''parent'' []
        (snd (TestLogger_With testLogger [AnyString ''service'', AnyString ''api''] testStore)))
      = entriesAt (TestLogger_log testLogger LevelInfo ''parent'' [] testStore)"
    using th [of "[AnyString ''service'', AnyString ''api'']" LevelInfo "''parent''" "[]"] by blast
  have B: "entriesAt (TestLogger_log testLogger LevelInfo ''parent'' [AnyString ''k'', AnyInt 1]
        (snd (TestLogger_WithGroup testLogger ''request'' testStore)))
      = entriesAt (TestLogger_log testLogger LevelInfo ''parent'' [AnyString ''k'', AnyInt 1] testStore)"
    using th [of _ LevelInfo "''parent''" "[AnyString ''k'', AnyInt 1]" "''request''"] by blast
  have C: "colorHandler_Handle bufferHandler None requestRecord
       (snd (colorHandler_WithAttrs bufferHandler [slog_String ''service'' ''api''] emptyHeap)) workingSink
     = colorHandler_Handle bufferHandler None requestRecord emptyHeap workingSink"
    using th [where as = "[slog_String ''service'' ''api'']" and ctx = None and s = workingSink] by blast
  have D: "colorHandler_Handle bufferHandler None requestRecord
       (snd (colorHandler_WithGroup bufferHandler ''http'' emptyHeap)) workingSink
     = colorHandler_Handle bufferHandler None requestRecord emptyHeap workingSink"
    using th [where name = "''http''" and ctx = None and s = workingSink] by blast
  show ?thesis
    using a1 a2 a3 C D
    by (simp add: TestLogger_Entries_def A B) (simp add: TestLogger_log_def testLogger_eq testStore_eq)
qed

subsection \<open>C10: an unpaired last argument\<close>

text \<open>
  Claim C10. A log call on a test logger with an odd number of arguments has exactly the
  effect of the call without the last argument: one entry is appended, with the level,
  the message and, over the accumulated attributes, every complete pair whose key is a
  string; the pairs are those at the positions \<open>2i\<close> and \<open>2i + 1\<close>, so the last argument
  is part of none.
\<close>

theorem log_ignores_dangling:
  assumes "odd (length args)"
  shows "TestLogger_log t lvl msg args st = TestLogger_log t lvl msg (butlast args) st \<and>
         TestLogger_Entries t (TestLogger_log t lvl msg args st)
           = TestLogger_Entries t st
             @ [\<lparr>e_Level = lvl, e_Message = msg,
                 e_Attrs = foldl (putPair (tl_group t)) (mapsAt st (tl_attrs t)) (completePairs args)\<rparr>] \<and>
         completePairs args = completePairs (butlast args)"
  using completePairs_butlast [OF assms]
  by (simp add: TestLogger_log_def TestLogger_Entries_def logArgs_foldl)

theorem log_ignores_dangling_witness:
  "odd (length [AnyString ''k'', AnyInt 1, AnyString ''dangling'']) \<and>
   TestLogger_Entries testLogger
     (TestLogger_log testLogger LevelInfo ''x'' [AnyString ''k'', AnyInt 1, AnyString ''dangling''] testStore)
     = [\<lparr>e_Level = LevelInfo, e_Message = ''x'', e_Attrs = [''k'' \<mapsto> AnyInt 1]\<rparr>] \<and>
   TestLogger_log testLogger LevelInfo ''x'' [AnyString ''k'', AnyInt 1, AnyString ''dangling''] testStore
     = TestLogger_log testLogger LevelInfo ''x'' [AnyString ''k'', AnyInt 1] testStore"
proof -
  have o: "odd (length [AnyString ''k'', AnyInt 1, AnyString ''dangling''])" by simp
  have c: "completePairs [AnyString ''k'', AnyInt 1, AnyString ''dangling''] = [(AnyString ''k'', AnyInt 1)]"
    by (simp add: completePairs_def)
  note th = log_ignores_dangling [OF o, of testLogger LevelInfo "''x''" testStore]
  have A: "TestLogger_Entries testLogger
     (TestLogger_log testLogger LevelInfo ''x'' [AnyString ''k'', AnyInt 1, AnyString ''dangling''] testStore)
     = [\<lparr>e_Level = LevelInfo, e_Message = ''x'', e_Attrs = [''k'' \<mapsto> AnyInt 1]\<rparr>]"
    using th [THEN conjunct2, THEN conjunct1]
    by (simp add: c putPair_def testLogger_eq testStore_eq TestLogger_Entries_def)
  have B: "TestLogger_log testLogger LevelInfo ''x'' [AnyString ''k'', AnyInt 1, AnyString ''dangling''] testStore
     = TestLogger_log testLogger LevelInfo ''x'' [AnyString ''k'', AnyInt 1] testStore"
    using th [THEN conjunct1] by simp
  show ?thesis
    by (rule conjI [OF o conjI [OF A B]])
qed


end
